theory Spec2Isabelle
  imports Complex_Main "HOL-Library.Sublist"
begin

section \<open>Python values shared by the two source files\<close>

text \<open>
  Exceptions of the Python source are values: a function that can raise returns
  \<open>py_error + 'a\<close>, with \<open>Inl\<close> for the exception. \<open>ConfigError\<close> carries its message,
  the other exceptions are the interpreter's and numpy's own.
\<close>

datatype py_error =
    IndexError
  | KeyError string
  | TypeError
  | AttributeError
  | ValueError
  | AxisError
  | RecursionError
  | ConfigError string
  | ExternalError string

definition ebind :: "py_error + 'a \<Rightarrow> ('a \<Rightarrow> py_error + 'b) \<Rightarrow> py_error + 'b" where
  "ebind r f = (case r of Inl e \<Rightarrow> Inl e | Inr v \<Rightarrow> f v)"

section \<open>Image preprocessing: \<open>normalization\<close> (preprocessing.py)\<close>

text \<open>
  An image after \<open>np.transpose(image, (2, 0, 1))\<close> is a (C, H, W) array; its elements
  are modelled as rationals, on which the affine arithmetic of the source is exact.
  \<open>np.subtract\<close> and \<open>np.divide\<close> with a scalar second argument work element by
  element. numpy's division by a zero scale yields \<open>inf\<close>/\<open>nan\<close> (a warning, no
  exception); rationals have no such values, so the model returns \<open>None\<close> there.
\<close>

type_synonym chw = "rat list list list"

definition np_subtract :: "chw \<Rightarrow> rat \<Rightarrow> chw" where
  "np_subtract x m = map (map (map (\<lambda>v. v - m))) x"

definition np_divide :: "chw \<Rightarrow> rat \<Rightarrow> chw option" where
  "np_divide x s = (if s = 0 then None else Some (map (map (map (\<lambda>v. v / s))) x))"

definition normalization :: "chw \<Rightarrow> rat \<Rightarrow> rat \<Rightarrow> chw option" where
  "normalization x mean scale = np_divide (np_subtract x mean) scale"

text \<open>
  \<open>preprocess_with_images\<close>: the three OpenCV/numpy calls before the normalization
  (\<open>cv2.cvtColor\<close>, \<open>cv2.resize\<close> with cubic interpolation, \<open>np.transpose\<close>) are
  library code; they are parameters of the model. The byte image is an (H, W, C) array
  of naturals, the transposed one is converted to rationals by the subtraction of the
  float \<open>127.5\<close>.
\<close>

type_synonym hwc = "nat list list list"

record cv2_image_ops =
  cvtColor_BGR2RGB :: "hwc \<Rightarrow> hwc"
  resize_cubic_256 :: "hwc \<Rightarrow> hwc"
  transpose_201 :: "hwc \<Rightarrow> nat list list list"

definition as_float :: "nat list list list \<Rightarrow> chw" where
  "as_float x = map (map (map rat_of_nat)) x"

definition preprocess_with_images :: "cv2_image_ops \<Rightarrow> hwc \<Rightarrow> chw option" where
  "preprocess_with_images cv img =
     (let img1 = cvtColor_BGR2RGB cv img;
          img2 = resize_cubic_256 cv img1;
          img3 = transpose_201 cv img2
      in normalization (as_float img3) (255 / 2) (255 / 2))"

text \<open>
  The inverse affine map named by the specification (\<open>y * 127.5 + 127.5\<close>); the
  source has no such function, this definition follows the specification's words.
\<close>

definition spec_denormalize :: "chw \<Rightarrow> chw" where
  "spec_denormalize y = map (map (map (\<lambda>v. v * (255 / 2) + 255 / 2))) y"

definition elems :: "'a list list list \<Rightarrow> 'a set" where
  "elems x = (\<Union>plane \<in> set x. \<Union>row \<in> set plane. set row)"

definition bytes_only :: "chw \<Rightarrow> bool" where
  "bytes_only x = (\<forall>v \<in> elems x. 0 \<le> v \<and> v \<le> 255)"

section \<open>The evaluator object and its accumulated state (cocosnet_evaluator.py)\<close>

text \<open>
  \<open>CocosnetEvaluator.__init__\<close> stores eight collaborator objects and three lists.
  A collaborator is held by reference: the evaluator's field is the object's identity
  (\<open>ref\<close>), and the object's own state lives in a heap, so that "the same object, in
  another state" and "another object" are different things. The three private
  attributes \<open>_annotations\<close>, \<open>_predictions\<close> and \<open>_metrics_results\<close> are the fields
  \<open>attr_annotations\<close>, \<open>attr_predictions\<close> and \<open>attr_metrics_results\<close>; \<open>None\<close>
  is the attribute after \<open>del\<close> and before it is assigned again.
\<close>

type_synonym ref = nat

record ('ann, 'pred, 'met) cocosnet_evaluator =
  launcher :: ref
  reader :: ref
  preprocessor_mask :: ref
  preprocessor_image :: ref
  postprocessor :: ref
  dataset :: ref
  metric_executor :: ref
  model :: ref
  attr_annotations :: "'ann list option"
  attr_predictions :: "'pred list option"
  attr_metrics_results :: "'met list option"

definition init :: "ref \<Rightarrow> ref \<Rightarrow> ref \<Rightarrow> ref \<Rightarrow> ref \<Rightarrow> ref \<Rightarrow> ref \<Rightarrow> ref
    \<Rightarrow> ('ann, 'pred, 'met) cocosnet_evaluator" where
  "init launcher0 reader0 preprocessor_mask0 preprocessor_image0 postprocessor0 dataset0 metric0 model0 =
     \<lparr>launcher = launcher0, reader = reader0, preprocessor_mask = preprocessor_mask0,
      preprocessor_image = preprocessor_image0, postprocessor = postprocessor0,
      dataset = dataset0, metric_executor = metric0, model = model0,
      attr_annotations = Some [], attr_predictions = Some [], attr_metrics_results = Some []\<rparr>"

text \<open>
  The collaborators' classes (\<open>MetricsExecutor\<close>, \<open>Dataset\<close>, the readers, the
  presenters) are not part of the two source files: their methods are parameters. A
  method that changes its object maps the object's state to the new one, or raises.
  \<open>write_result\<close> prints; the printed lines are collected in \<open>printed\<close>.
\<close>

record ('obj, 'ann, 'pred, 'met, 'pres) collaborators =
  metric_executor_reset :: "'obj \<Rightarrow> py_error + 'obj"
  dataset_reset :: "bool \<Rightarrow> 'obj \<Rightarrow> py_error + 'obj"
  reader_reset :: "'obj \<Rightarrow> py_error + 'obj"
  has_processors :: "'obj \<Rightarrow> bool"
  iterate_metrics :: "'obj \<Rightarrow> 'ann list \<Rightarrow> 'pred list \<Rightarrow> py_error + ('pres \<times> 'met) list"

record ('obj, 'ann, 'pred, 'met, 'pres) py_state =
  self :: "('ann, 'pred, 'met) cocosnet_evaluator"
  heap :: "ref \<Rightarrow> 'obj"
  printed :: "('pres \<times> 'met \<times> bool) list"

definition invoke :: "ref \<Rightarrow> ('obj \<Rightarrow> py_error + 'obj) \<Rightarrow> (ref \<Rightarrow> 'obj) \<Rightarrow> py_error + (ref \<Rightarrow> 'obj)" where
  "invoke r method h = ebind (method (h r)) (\<lambda>obj. Inr (h(r := obj)))"

definition get_attr :: "'a option \<Rightarrow> py_error + 'a" where
  "get_attr a = (case a of None \<Rightarrow> Inl AttributeError | Some v \<Rightarrow> Inr v)"

text \<open>\<open>CocosnetEvaluator.reset\<close>, statement by statement.\<close>

definition reset ::
  "('obj, 'ann, 'pred, 'met, 'pres) collaborators \<Rightarrow> ('obj, 'ann, 'pred, 'met, 'pres) py_state
   \<Rightarrow> py_error + ('obj, 'ann, 'pred, 'met, 'pres) py_state" where
  "reset env st =
     ebind (invoke (metric_executor (self st)) (metric_executor_reset env) (heap st)) (\<lambda>h1.
     ebind (get_attr (attr_annotations (self st))) (\<lambda>_.
     ebind (get_attr (attr_predictions (self st))) (\<lambda>_.
     ebind (get_attr (attr_metrics_results (self st))) (\<lambda>_.
       let self1 = (self st)\<lparr>attr_annotations := Some [], attr_predictions := Some [],
                              attr_metrics_results := Some []\<rparr>;
           flag = has_processors env (h1 (postprocessor self1))
       in
     ebind (invoke (dataset self1) (dataset_reset env flag) h1) (\<lambda>h2.
     ebind (invoke (reader self1) (reader_reset env) h2) (\<lambda>h3.
       Inr (st\<lparr>self := self1, heap := h3\<rparr>)))))))"

text \<open>
  \<open>compute_metrics\<close>: the accumulated results are emptied when non-empty, then every
  metric the executor yields is appended and, on request, printed.
\<close>

fun append_metrics ::
  "bool \<Rightarrow> bool \<Rightarrow> ('pres \<times> 'met) list \<Rightarrow> 'met list \<times> ('pres \<times> 'met \<times> bool) list
   \<Rightarrow> 'met list \<times> ('pres \<times> 'met \<times> bool) list" where
  "append_metrics print_results ignore_results_formatting [] acc = acc"
| "append_metrics print_results ignore_results_formatting ((result_presenter, evaluated_metric) # rest) (ms, out) =
     append_metrics print_results ignore_results_formatting rest
       (ms @ [evaluated_metric],
        if print_results then out @ [(result_presenter, evaluated_metric, ignore_results_formatting)] else out)"

definition compute_metrics ::
  "('obj, 'ann, 'pred, 'met, 'pres) collaborators \<Rightarrow> bool \<Rightarrow> bool
   \<Rightarrow> ('obj, 'ann, 'pred, 'met, 'pres) py_state
   \<Rightarrow> py_error + ('met list \<times> ('obj, 'ann, 'pred, 'met, 'pres) py_state)" where
  "compute_metrics env print_results ignore_results_formatting st =
     ebind (get_attr (attr_metrics_results (self st))) (\<lambda>ms0.
       let ms1 = (if ms0 \<noteq> [] then [] else ms0) in
     ebind (get_attr (attr_annotations (self st))) (\<lambda>anns.
     ebind (get_attr (attr_predictions (self st))) (\<lambda>preds.
     ebind (iterate_metrics env (heap st (metric_executor (self st))) anns preds) (\<lambda>yielded.
       let (ms2, out) = append_metrics print_results ignore_results_formatting yielded (ms1, printed st)
       in Inr (ms2, st\<lparr>self := (self st)\<lparr>attr_metrics_results := Some ms2\<rparr>, printed := out\<rparr>)))))"

text \<open>
  The property \<open>metrics_results\<close>. Its guard reads the property itself
  (\<open>self.metrics_results\<close>), which is a call of the same function on the same object.
  The interpreter counts the frames of the call stack and raises \<open>RecursionError\<close>
  when a call would exceed the limit (\<open>sys.getrecursionlimit()\<close>): \<open>depth\<close> is the
  number of frames in use when the property is entered.
\<close>

function metrics_results ::
  "('obj, 'ann, 'pred, 'met, 'pres) collaborators \<Rightarrow> nat \<Rightarrow> nat
   \<Rightarrow> ('obj, 'ann, 'pred, 'met, 'pres) py_state
   \<Rightarrow> py_error + ('met list \<times> ('obj, 'ann, 'pred, 'met, 'pres) py_state)" where
  "metrics_results env limit depth st =
     (if limit \<le> depth then Inl RecursionError
      else
        ebind (metrics_results env limit (Suc depth) st) (\<lambda>(guard, st1).
        ebind (if guard = [] then ebind (compute_metrics env False False st1) (\<lambda>(_, st2). Inr st2)
               else Inr st1) (\<lambda>st3.
        ebind (get_attr (attr_metrics_results (self st3))) (\<lambda>computed_metrics.
          Inr (computed_metrics, st3)))))"
  by pat_completeness auto
termination
  by (relation "measure (\<lambda>(env, limit, depth, st). limit - depth)") auto

declare metrics_results.simps [simp del]

section \<open>Configuration values and \<open>from_configs\<close>\<close>

text \<open>
  A configuration is what the YAML loader produces: strings, numbers, booleans,
  \<open>None\<close>, lists and dicts with string keys. A dict is an association list (the first
  binding of a key is the one a lookup returns).
\<close>

datatype config =
    CStr string
  | CInt int
  | CBool bool
  | CNone
  | CList "config list"
  | CDict "(string \<times> config) list"

text \<open>\<open>c[key]\<close> with a string key, \<open>c[0]\<close>, and \<open>c.get(key, dflt)\<close>.\<close>

fun getitem_key :: "config \<Rightarrow> string \<Rightarrow> py_error + config" where
  "getitem_key (CDict d) k = (case map_of d k of None \<Rightarrow> Inl (KeyError k) | Some v \<Rightarrow> Inr v)"
| "getitem_key c k = Inl TypeError"

fun getitem_0 :: "config \<Rightarrow> py_error + config" where
  "getitem_0 (CList []) = Inl IndexError"
| "getitem_0 (CList (x # xs)) = Inr x"
| "getitem_0 (CStr []) = Inl IndexError"
| "getitem_0 (CStr (ch # s)) = Inr (CStr [ch])"
| "getitem_0 (CDict d) = Inl (KeyError ''0'')"
| "getitem_0 c = Inl TypeError"

fun dict_get :: "config \<Rightarrow> string \<Rightarrow> config \<Rightarrow> py_error + config" where
  "dict_get (CDict d) k dflt = (case map_of d k of None \<Rightarrow> Inr dflt | Some v \<Rightarrow> Inr v)"
| "dict_get c k dflt = Inl AttributeError"

text \<open>
  \<open>CocosnetEvaluator.from_configs\<close>, from its first statement to the end of the
  \<open>if\<close>/\<open>elif\<close>/\<open>else\<close> that settles the reader's type: the function returns
  \<open>(data_reader_type, data_reader_config)\<close> as they stand there. The statements after
  it construct objects of classes outside the two source files. \<open>Dataset\<close> is such a
  class too; its constructor is the parameter \<open>dataset_ctor\<close>.
\<close>

definition from_configs_reader_type ::
  "(config \<Rightarrow> py_error + 'ds) \<Rightarrow> config \<Rightarrow> py_error + (config \<times> config)" where
  "from_configs_reader_type dataset_ctor model_config =
     ebind (getitem_key model_config ''network_info'') (\<lambda>network_info.
     ebind (getitem_key model_config ''launchers'') (\<lambda>launchers.
     ebind (getitem_0 launchers) (\<lambda>launcher_config.
     ebind (getitem_key model_config ''datasets'') (\<lambda>datasets.
     ebind (getitem_0 datasets) (\<lambda>dataset_config.
     ebind (getitem_key dataset_config ''name'') (\<lambda>dataset_name.
     ebind (dict_get dataset_config ''reader'' (CStr ''opencv_imread'')) (\<lambda>data_reader_config.
     ebind (dict_get dataset_config ''data_source'' CNone) (\<lambda>data_source.
     ebind (dataset_ctor dataset_config) (\<lambda>dataset.
       case data_reader_config of
         CStr data_reader_type \<Rightarrow> Inr (CStr data_reader_type, CNone)
       | CDict d \<Rightarrow>
           ebind (getitem_key data_reader_config ''type'') (\<lambda>data_reader_type.
             Inr (data_reader_type, data_reader_config))
       | _ \<Rightarrow> Inl (ConfigError ''reader should be dict or string''))))))))))"

fun is_str :: "config \<Rightarrow> bool" where
  "is_str (CStr s) = True"
| "is_str c = False"

fun is_dict :: "config \<Rightarrow> bool" where
  "is_dict (CDict d) = True"
| "is_dict c = False"

text \<open>
  A configuration on which the statements before the reader's check go through: it
  has \<open>network_info\<close>, a non-empty \<open>launchers\<close> list, a \<open>datasets\<close> list whose first
  entry is a dict with a \<open>name\<close>, and \<open>Dataset\<close> accepts that entry. \<open>reader_entry\<close>
  is the value the check looks at.
\<close>

definition reaches_reader_check :: "(config \<Rightarrow> py_error + 'ds) \<Rightarrow> config \<Rightarrow> (string \<times> config) list \<Rightarrow> bool" where
  "reaches_reader_check dataset_ctor model_config d \<longleftrightarrow>
     (\<exists>ni l ls ds nm dsobj m.
        model_config = CDict m
        \<and> map_of m ''network_info'' = Some ni
        \<and> map_of m ''launchers'' = Some (CList (l # ls))
        \<and> map_of m ''datasets'' = Some (CList (CDict d # ds))
        \<and> map_of d ''name'' = Some nm
        \<and> dataset_ctor (CDict d) = Inr dsobj)"

definition reader_entry :: "(string \<times> config) list \<Rightarrow> config" where
  "reader_entry d = (case map_of d ''reader'' of None \<Rightarrow> CStr ''opencv_imread'' | Some v \<Rightarrow> v)"

section \<open>\<open>automatic_model_search\<close>\<close>

text \<open>
  Python's \<open>old in s\<close> on strings is \<open>sublist old s\<close>. \<open>s.replace(old, new)\<close> replaces
  the occurrences of \<open>old\<close> from the left, never overlapping; with an empty \<open>old\<close> it
  puts \<open>new\<close> before every character and at the end.
\<close>

function replace_from_left :: "string \<Rightarrow> string \<Rightarrow> string \<Rightarrow> string" where
  "replace_from_left old new s =
     (if old = [] \<or> s = [] then s
      else if prefix old s then new @ replace_from_left old new (drop (length old) s)
      else hd s # replace_from_left old new (tl s))"
  by pat_completeness auto
termination
  by (relation "measure (\<lambda>(old, new, s). length s)") auto

declare replace_from_left.simps [simp del]

definition str_replace :: "string \<Rightarrow> string \<Rightarrow> string \<Rightarrow> string" where
  "str_replace s old new =
     (if old = [] then new @ concat (map (\<lambda>c. c # new) s) else replace_from_left old new s)"

text \<open>
  \<open>Path(x)\<close> takes a string (a \<open>TypeError\<close> otherwise); \<open>str(Path(x))\<close> is the
  parameter \<open>path_str\<close> (pathlib's normalisation). \<open>get_path\<close> is a function of the
  package's \<open>utils\<close> module, which is not among the source files: it is the parameter
  \<open>get_path\<close>, taken with the \<open>str\<close> around it, from a configuration value to the
  path's string, or an exception.
\<close>

definition automatic_model_search ::
  "(string \<Rightarrow> string) \<Rightarrow> (config \<Rightarrow> py_error + string) \<Rightarrow> config \<Rightarrow> py_error + (string \<times> string)" where
  "automatic_model_search path_str get_path network_info =
     ebind (getitem_key network_info ''model'') (\<lambda>entry.
     ebind (case entry of CStr m \<Rightarrow> Inr (path_str m) | _ \<Rightarrow> Inl TypeError) (\<lambda>model.
     ebind (dict_get network_info ''weights'' (CStr model)) (\<lambda>weights_entry.
     ebind (get_path weights_entry) (\<lambda>weights.
       let weights = (if sublist ''.xml'' weights then str_replace weights ''.xml'' ''.bin'' else weights)
       in Inr (model, weights)))))"


text \<open>Concrete parameters and configurations for the examples.\<close>

definition get_path0 :: "config \<Rightarrow> py_error + string" where
  "get_path0 c = (case c of CStr s \<Rightarrow> Inr s | _ \<Rightarrow> Inl TypeError)"

definition example_config :: "(string \<times> config) list \<Rightarrow> config" where
  "example_config d =
     CDict [(''network_info'', CDict [(''correspondence'', CDict [(''model'', CStr ''corr.xml'')])]),
            (''launchers'', CList [CDict [(''framework'', CStr ''dlsdk'')]]),
            (''datasets'', CList [CDict d])]"

definition dataset_ctor0 :: "config \<Rightarrow> py_error + unit" where
  "dataset_ctor0 c = Inr ()"

definition same_collaborators ::
  "('ann, 'pred, 'met) cocosnet_evaluator \<Rightarrow> ('ann, 'pred, 'met) cocosnet_evaluator \<Rightarrow> bool" where
  "same_collaborators a b \<longleftrightarrow>
     launcher a = launcher b \<and> reader a = reader b \<and> preprocessor_mask a = preprocessor_mask b
     \<and> preprocessor_image a = preprocessor_image b \<and> postprocessor a = postprocessor b
     \<and> dataset a = dataset b \<and> metric_executor a = metric_executor b \<and> model a = model b"


text \<open>A small concrete world: objects are counters, a reset sets the counter to zero.\<close>

definition env0 :: "(nat, nat, nat, nat, nat) collaborators" where
  "env0 = \<lparr>metric_executor_reset = (\<lambda>_. Inr 0), dataset_reset = (\<lambda>_ _. Inr 0),
           reader_reset = (\<lambda>_. Inr 0), has_processors = (\<lambda>obj. obj \<noteq> 0),
           iterate_metrics = (\<lambda>_ _ _. Inr [])\<rparr>"

definition st0 :: "(nat, nat, nat, nat, nat) py_state" where
  "st0 = \<lparr>self = (init 1 2 3 4 5 6 7 8)\<lparr>attr_annotations := Some [10, 11],
             attr_predictions := Some [20, 21], attr_metrics_results := Some [30]\<rparr>,
          heap = (\<lambda>_. 5), printed = []\<rparr>"

section \<open>\<open>_get_batch_input\<close>\<close>

text \<open>
  What the reader returns for one identifier is a \<open>DataRepresentation\<close>: the list of
  the sample's data channels and its metadata. The reader, the dataset's
  \<open>set_annotation_metadata\<close>, the two \<open>PreprocessingExecutor\<close>s and
  \<open>extract_image_representations\<close> are not part of the two source files; they are
  parameters, each of which may raise. \<open>mask_process anns d\<close> is
  \<open>self.preprocessor_mask.process(images=[DataRepresentation(d)],
  batch_annotation=anns)[0].data\<close>, and \<open>image_process\<close> the same call on
  \<open>self.preprocessor_image\<close>.
\<close>

record ('d, 'meta) data_representation =
  data :: "'d list"
  metadata :: 'meta

record ('id, 'ann, 'd, 'meta) batch_collaborators =
  annotation_identifier :: "'ann \<Rightarrow> 'id"
  reader_call :: "'id \<Rightarrow> py_error + ('d, 'meta) data_representation"
  set_annotation_metadata :: "'ann \<Rightarrow> ('d, 'meta) data_representation \<Rightarrow> py_error + 'ann"
  mask_process :: "'ann list \<Rightarrow> 'd \<Rightarrow> py_error + 'd"
  image_process :: "'ann list \<Rightarrow> 'd \<Rightarrow> py_error + 'd"
  extract_image_representations ::
    "('d, 'meta) data_representation list \<Rightarrow> py_error + ('d list list \<times> 'meta list)"

text \<open>
  The model records every call of a preprocessor: which of the two it was, for which
  sample and for which data channel.
\<close>

datatype preprocessor = Preprocessor_mask | Preprocessor_image

type_synonym call = "nat \<times> nat \<times> preprocessor"

fun process ::
  "('id, 'ann, 'd, 'meta) batch_collaborators \<Rightarrow> preprocessor \<Rightarrow> 'ann list \<Rightarrow> 'd \<Rightarrow> py_error + 'd" where
  "process c Preprocessor_mask = mask_process c"
| "process c Preprocessor_image = image_process c"

text \<open>A list comprehension or a \<open>for\<close> loop over calls that may raise.\<close>

fun traverse :: "('a \<Rightarrow> py_error + 'b) \<Rightarrow> 'a list \<Rightarrow> py_error + 'b list" where
  "traverse f [] = Inr []"
| "traverse f (x # xs) =
     (case f x of
        Inl e \<Rightarrow> Inl e
      | Inr y \<Rightarrow> (case traverse f xs of Inl e \<Rightarrow> Inl e | Inr ys \<Rightarrow> Inr (y # ys)))"

text \<open>
  The inner loop, \<open>for index_of_input, _ in enumerate(batch_input[i].data)\<close>: the
  list is updated in place at the index being visited, its length never changes.
\<close>

fun process_data ::
  "('id, 'ann, 'd, 'meta) batch_collaborators \<Rightarrow> 'ann list \<Rightarrow> nat \<Rightarrow> nat list \<Rightarrow> 'd list \<Rightarrow> call list
   \<Rightarrow> py_error + ('d list \<times> call list)" where
  "process_data c batch_annotation i [] ds calls = Inr (ds, calls)"
| "process_data c batch_annotation i (index_of_input # rest) ds calls =
     (let preprocessor = (if index_of_input mod 2 \<noteq> 0 then Preprocessor_image else Preprocessor_mask)
      in case process c preprocessor batch_annotation (ds ! index_of_input) of
           Inl e \<Rightarrow> Inl e
         | Inr d' \<Rightarrow>
             process_data c batch_annotation i rest (ds[index_of_input := d'])
               (calls @ [(i, index_of_input, preprocessor)]))"

text \<open>The outer loop, \<open>for i, _ in enumerate(batch_input)\<close>.\<close>

fun process_batch ::
  "('id, 'ann, 'd, 'meta) batch_collaborators \<Rightarrow> 'ann list \<Rightarrow> nat list
   \<Rightarrow> ('d, 'meta) data_representation list \<Rightarrow> call list
   \<Rightarrow> py_error + (('d, 'meta) data_representation list \<times> call list)" where
  "process_batch c batch_annotation [] batch_input calls = Inr (batch_input, calls)"
| "process_batch c batch_annotation (i # rest) batch_input calls =
     (case process_data c batch_annotation i [0..<length (data (batch_input ! i))]
             (data (batch_input ! i)) calls of
        Inl e \<Rightarrow> Inl e
      | Inr (ds, calls') \<Rightarrow>
          process_batch c batch_annotation rest
            (batch_input[i := (batch_input ! i)\<lparr>data := ds\<rparr>]) calls')"

definition get_batch_input ::
  "('id, 'ann, 'd, 'meta) batch_collaborators \<Rightarrow> 'ann list
   \<Rightarrow> py_error + (('d, 'meta) data_representation list list \<times> 'meta list \<times> 'id list
                   \<times> 'ann list \<times> call list)" where
  "get_batch_input c batch_annotation =
     (let batch_identifiers = map (annotation_identifier c) batch_annotation in
      ebind (traverse (reader_call c) batch_identifiers) (\<lambda>batch_input.
      ebind (traverse (\<lambda>(annotation, input_data). set_annotation_metadata c annotation input_data)
               (zip batch_annotation batch_input)) (\<lambda>batch_annotation1.
      ebind (process_batch c batch_annotation1 [0..<length batch_input] batch_input [])
        (\<lambda>(batch_input1, calls).
      ebind (extract_image_representations c batch_input1) (\<lambda>(_, batch_meta).
        Inr ([batch_input1], batch_meta, batch_identifiers, batch_annotation1, calls))))))"

definition chosen :: "nat \<Rightarrow> preprocessor" where
  "chosen k = (if even k then Preprocessor_mask else Preprocessor_image)"

definition expected_calls :: "('d, 'meta) data_representation list \<Rightarrow> call list" where
  "expected_calls raw =
     concat (map (\<lambda>i. map (\<lambda>k. (i, k, chosen k)) [0..<length (data (raw ! i))]) [0..<length raw])"


definition never_raises :: "('id, 'ann, 'd, 'meta) batch_collaborators \<Rightarrow> bool" where
  "never_raises c \<longleftrightarrow>
     (\<forall>ident. \<exists>r. reader_call c ident = Inr r)
     \<and> (\<forall>a r. \<exists>a'. set_annotation_metadata c a r = Inr a')
     \<and> (\<forall>anns d. \<exists>d'. mask_process c anns d = Inr d')
     \<and> (\<forall>anns d. \<exists>d'. image_process c anns d = Inr d')
     \<and> (\<forall>b. \<exists>r. extract_image_representations c b = Inr r)"

text \<open>
  Example collaborators: a sample has three channels, the mask preprocessor marks a
  channel with \<open>M\<close>, the image preprocessor with \<open>I\<close>.
\<close>

definition batch0 :: "(nat, nat, string, nat) batch_collaborators" where
  "batch0 = \<lparr>annotation_identifier = (\<lambda>a. a),
             reader_call = (\<lambda>ident. Inr \<lparr>data = [''a'', ''b'', ''c''], metadata = ident\<rparr>),
             set_annotation_metadata = (\<lambda>a r. Inr a),
             mask_process = (\<lambda>anns d. Inr (d @ ''M'')),
             image_process = (\<lambda>anns d. Inr (d @ ''I'')),
             extract_image_representations = (\<lambda>b. Inr (map data b, map metadata b))\<rparr>"

section \<open>The two-stage model: \<open>CocosnetModel.predict\<close>\<close>

text \<open>
  A tensor that goes into or comes out of the inference engine is a numpy array: its
  shape and its elements in row-major order. \<open>np.concatenate((a, b), axis=1)\<close> is
  numpy's, modelled from its documented behaviour: a zero-dimensional first array is
  a \<open>ValueError\<close>, an axis outside the first array's dimensions an \<open>AxisError\<close>,
  arrays of different numbers of dimensions, or of different sizes in a dimension
  other than the axis, a \<open>ValueError\<close>; otherwise the result has the sizes of the two
  arrays added up along the axis.
\<close>

record 'a ndarray =
  shape :: "nat list"
  flat :: "'a list"

definition np_concatenate_axis1 :: "'a ndarray \<Rightarrow> 'a ndarray \<Rightarrow> py_error + 'a ndarray" where
  "np_concatenate_axis1 a b =
     (case shape a of
        [] \<Rightarrow> Inl ValueError
      | [n] \<Rightarrow> Inl AxisError
      | n # c1 # rest \<Rightarrow>
          if length (shape b) \<noteq> length (shape a) then Inl ValueError
          else (case shape b of
                  m # c2 # rest' \<Rightarrow>
                    if n = m \<and> rest = rest'
                    then Inr \<lparr>shape = n # (c1 + c2) # rest,
                              flat = concat (map (\<lambda>i. take (c1 * prod_list rest) (drop (i * (c1 * prod_list rest)) (flat a))
                                                      @ take (c2 * prod_list rest) (drop (i * (c2 * prod_list rest)) (flat b)))
                                             [0..<n])\<rparr>
                    else Inl ValueError
                | _ \<Rightarrow> Inl ValueError))"

text \<open>
  A dict of named tensors (the engine's inputs and outputs) is an association list;
  \<open>d[key]\<close> raises \<open>KeyError\<close> on a missing key and \<open>xs[0]\<close> raises \<open>IndexError\<close> on
  an empty list.
\<close>

type_synonym 'a blobs = "(string \<times> 'a ndarray) list"

definition blob_getitem :: "'a blobs \<Rightarrow> string \<Rightarrow> py_error + 'a ndarray" where
  "blob_getitem d k = (case map_of d k of None \<Rightarrow> Inl (KeyError k) | Some v \<Rightarrow> Inr v)"

definition list_getitem0 :: "'b list \<Rightarrow> py_error + 'b" where
  "list_getitem0 xs = (case xs of [] \<Rightarrow> Inl IndexError | x # _ \<Rightarrow> Inr x)"

text \<open>
  \<open>CocosnetModel\<close> with its two networks. The input feeder's \<open>fill_inputs\<close> and the
  executable networks' \<open>infer\<close> belong to the launcher and the inference engine: they
  are parameters, each of which may raise. \<open>key_of_warped_reference\<close>,
  \<open>key_of_input_semantics\<close> and \<open>input_blob\<close> are the names
  \<open>set_input_and_output\<close> stored.
\<close>

record ('s, 'a, 'p) cocosnet_model =
  fill_inputs :: "'s \<Rightarrow> py_error + 'a blobs list"
  correspondence_infer :: "'a blobs \<Rightarrow> py_error + 'a blobs"
  key_of_warped_reference :: string
  key_of_input_semantics :: string
  input_blob :: string
  generator_infer :: "'a blobs \<Rightarrow> py_error + 'p"

definition correspondence_fit_to_input :: "('s, 'a, 'p) cocosnet_model \<Rightarrow> 's \<Rightarrow> py_error + 'a blobs list" where
  "correspondence_fit_to_input m input_data = fill_inputs m input_data"

definition correspondence_predict :: "('s, 'a, 'p) cocosnet_model \<Rightarrow> 'a blobs \<Rightarrow> py_error + 'a blobs" where
  "correspondence_predict m input_data = correspondence_infer m input_data"

definition generator_fit_to_input :: "('s, 'a, 'p) cocosnet_model \<Rightarrow> 'a ndarray \<Rightarrow> 'a blobs" where
  "generator_fit_to_input m input_data = [(input_blob m, input_data)]"

definition generator_predict :: "('s, 'a, 'p) cocosnet_model \<Rightarrow> 'a ndarray \<Rightarrow> py_error + 'p" where
  "generator_predict m input_data = generator_infer m (generator_fit_to_input m input_data)"

text \<open>The body of the loop of \<open>predict\<close>, for one element of \<open>inputs\<close>.\<close>

definition predict_body :: "('s, 'a, 'p) cocosnet_model \<Rightarrow> 's \<Rightarrow> py_error + 'p" where
  "predict_body m inp0 =
     ebind (correspondence_fit_to_input m inp0) (\<lambda>inp.
     ebind (list_getitem0 inp) (\<lambda>inp_0.
     ebind (correspondence_predict m inp_0) (\<lambda>corr_out.
     ebind (blob_getitem corr_out (key_of_warped_reference m)) (\<lambda>warped_reference.
     ebind (blob_getitem inp_0 (key_of_input_semantics m)) (\<lambda>input_semantics.
     ebind (np_concatenate_axis1 warped_reference input_semantics) (\<lambda>gen_input.
       generator_predict m gen_input))))))"

fun predict_loop :: "('s, 'a, 'p) cocosnet_model \<Rightarrow> 's list \<Rightarrow> 'p list \<Rightarrow> py_error + 'p list" where
  "predict_loop m [] results = Inr results"
| "predict_loop m (inp # rest) results =
     (case predict_body m inp of
        Inl e \<Rightarrow> Inl e
      | Inr result \<Rightarrow> predict_loop m rest (results @ [result]))"

definition predict :: "('s, 'a, 'p) cocosnet_model \<Rightarrow> 's list \<Rightarrow> py_error + 'p list" where
  "predict m inputs = predict_loop m inputs []"

text \<open>
  Example models: the correspondence network returns the given warped reference,
  the sample is the input semantics itself, the generator returns the tensor it is
  given.
\<close>

definition semantics0 :: "int ndarray" where
  "semantics0 = \<lparr>shape = [1, 2, 1, 2], flat = [3, 4, 5, 6]\<rparr>"

definition warped0 :: "int ndarray" where
  "warped0 = \<lparr>shape = [1, 1, 1, 2], flat = [1, 2]\<rparr>"

definition warped_bad :: "int ndarray" where
  "warped_bad = \<lparr>shape = [1, 1, 2, 2], flat = [1, 2, 3, 4]\<rparr>"

definition model_with :: "int ndarray \<Rightarrow> (int ndarray, int, int ndarray) cocosnet_model" where
  "model_with w =
     \<lparr>fill_inputs = (\<lambda>sem. Inr [[(''input_semantics'', sem)]]),
      correspondence_infer = (\<lambda>blobs. Inr [(''warped'', w)]),
      key_of_warped_reference = ''warped'',
      key_of_input_semantics = ''input_semantics'',
      input_blob = ''gen_in'',
      generator_infer = (\<lambda>blobs. case blobs of [] \<Rightarrow> Inl (KeyError ''gen_in'') | (k, v) # _ \<Rightarrow> Inr v)\<rparr>"

definition gen_input0 :: "int ndarray" where
  "gen_input0 = \<lparr>shape = [1, 3, 1, 2], flat = [1, 2, 3, 4, 5, 6]\<rparr>"

section \<open>Mask preprocessing: \<open>scatter\<close> and \<open>preprocess_with_semantics\<close> (preprocessing.py)\<close>

text \<open>
  A label grid is a 2-D integer array: a list of rows of equal length. The one-hot
  tensor is a 4-D array, (batch, class, row, column), of nested lists.
  \<open>np.zeros((1, 151, 256, 256))\<close> is \<open>np_zeros4 1 151 256 256\<close>; the
  \<open>astype(np.int)\<close> that follows the scatter (\<open>np.int\<close> being the alias of Python's
  \<open>int\<close> that numpy had up to version 1.23) turns the floats \<open>0.0\<close> and \<open>1.0\<close>
  into the integers the model uses from the start.
\<close>

type_synonym grid = "int list list"

type_synonym tensor4 = "int list list list list"

definition np_zeros4 :: "nat \<Rightarrow> nat \<Rightarrow> nat \<Rightarrow> nat \<Rightarrow> tensor4" where
  "np_zeros4 n c h w = replicate n (replicate c (replicate h (replicate w 0)))"

text \<open>
  numpy's indexing of an axis of length \<open>n\<close> by an integer: an index in \<open>[0, n)\<close> is
  itself, an index in \<open>[-n, 0)\<close> counts from the end, anything else is an
  \<open>IndexError\<close>.
\<close>

definition np_index :: "nat \<Rightarrow> int \<Rightarrow> py_error + nat" where
  "np_index n k =
     (if 0 \<le> k \<and> k < int n then Inr (nat k)
      else if - int n \<le> k \<and> k < 0 then Inr (nat (k + int n))
      else Inl IndexError)"

text \<open>\<open>source[i][j]\<close>, and the shape \<open>h, w = source.shape\<close> of a grid.\<close>

definition grid_getitem :: "grid \<Rightarrow> nat \<Rightarrow> nat \<Rightarrow> py_error + int" where
  "grid_getitem source i j =
     ebind (np_index (length source) (int i)) (\<lambda>r.
     ebind (np_index (length (source ! r)) (int j)) (\<lambda>q.
       Inr (source ! r ! q)))"

definition grid_shape :: "grid \<Rightarrow> nat \<times> nat" where
  "grid_shape source = (length source, case source of [] \<Rightarrow> 0 | row # _ \<Rightarrow> length row)"

definition rectangular :: "grid \<Rightarrow> bool" where
  "rectangular source \<longleftrightarrow> (\<forall>row \<in> set source. length row = snd (grid_shape source))"

text \<open>The assignment \<open>out[0][label][i][j] = 1\<close>.\<close>

definition setitem_one :: "tensor4 \<Rightarrow> int \<Rightarrow> nat \<Rightarrow> nat \<Rightarrow> py_error + tensor4" where
  "setitem_one out label i j =
     ebind (np_index (length out) 0) (\<lambda>b.
     ebind (np_index (length (out ! b)) label) (\<lambda>c.
     ebind (np_index (length (out ! b ! c)) (int i)) (\<lambda>r.
     ebind (np_index (length (out ! b ! c ! r)) (int j)) (\<lambda>q.
       Inr (out[b := (out ! b)[c := (out ! b ! c)[r := (out ! b ! c ! r)[q := 1]]]])))))"

text \<open>The two loops of \<open>scatter\<close>: \<open>for j in range(w)\<close> inside \<open>for i in range(h)\<close>.\<close>

fun scatter_columns :: "grid \<Rightarrow> nat \<Rightarrow> nat list \<Rightarrow> tensor4 \<Rightarrow> py_error + tensor4" where
  "scatter_columns source i [] out = Inr out"
| "scatter_columns source i (j # js) out =
     (case grid_getitem source i j of
        Inl e \<Rightarrow> Inl e
      | Inr label \<Rightarrow>
          (case setitem_one out label i j of
             Inl e \<Rightarrow> Inl e
           | Inr out' \<Rightarrow> scatter_columns source i js out'))"

fun scatter_rows :: "grid \<Rightarrow> nat \<Rightarrow> nat list \<Rightarrow> tensor4 \<Rightarrow> py_error + tensor4" where
  "scatter_rows source w [] out = Inr out"
| "scatter_rows source w (i # is) out =
     (case scatter_columns source i [0..<w] out of
        Inl e \<Rightarrow> Inl e
      | Inr out' \<Rightarrow> scatter_rows source w is out')"

definition scatter :: "grid \<Rightarrow> py_error + tensor4" where
  "scatter source =
     (let out = np_zeros4 1 151 256 256;
          (h, w) = grid_shape source
      in scatter_rows source w [0..<h] out)"

text \<open>
  \<open>preprocess_with_semantics\<close>. \<open>cv2.resize(..., dsize=(256, 256),
  interpolation=cv2.INTER_NEAREST)\<close> is OpenCV's: the parameter \<open>cv2_resize_nearest\<close>,
  which may raise (it does on an empty image).
\<close>

definition preprocess_with_semantics ::
  "(grid \<Rightarrow> py_error + grid) \<Rightarrow> grid \<Rightarrow> py_error + tensor4" where
  "preprocess_with_semantics cv2_resize_nearest semantic_mask =
     ebind (cv2_resize_nearest semantic_mask) (\<lambda>semantic_mask1. scatter semantic_mask1)"

text \<open>
  What the theorems say about grids and tensors: a tensor's shape, the labels of a
  grid, the sum along the class axis (\<open>out.sum(axis=1)[0][i][j]\<close>), and what every
  nearest-neighbour resize to 256 by 256 guarantees: the result is 256 by 256 and
  each of its labels is a label of the input.
\<close>

definition has_shape :: "tensor4 \<Rightarrow> nat \<Rightarrow> nat \<Rightarrow> nat \<Rightarrow> nat \<Rightarrow> bool" where
  "has_shape out n c h w \<longleftrightarrow>
     length out = n
     \<and> (\<forall>b < n. length (out ! b) = c
          \<and> (\<forall>k < c. length (out ! b ! k) = h
               \<and> (\<forall>i < h. length (out ! b ! k ! i) = w)))"

definition labels :: "grid \<Rightarrow> int set" where
  "labels source = (\<Union>row \<in> set source. set row)"

definition grid_256 :: "grid \<Rightarrow> bool" where
  "grid_256 source \<longleftrightarrow> length source = 256 \<and> (\<forall>row \<in> set source. length row = 256)"

definition class_sum :: "tensor4 \<Rightarrow> nat \<Rightarrow> nat \<Rightarrow> int" where
  "class_sum out i j = sum_list (map (\<lambda>plane. plane ! i ! j) (out ! 0))"

definition nearest_neighbour_256 :: "(grid \<Rightarrow> py_error + grid) \<Rightarrow> bool" where
  "nearest_neighbour_256 resize \<longleftrightarrow>
     (\<forall>source resized. resize source = Inr resized \<longrightarrow>
        grid_256 resized \<and> labels resized \<subseteq> labels source)"

text \<open>
  An example of such a resize: the pixel at \<open>(y, x)\<close> of the result is the pixel at
  \<open>(y * h div 256, x * w div 256)\<close> of the input; an empty input is an error.
\<close>

definition resize_by_index :: "grid \<Rightarrow> py_error + grid" where
  "resize_by_index source =
     (let (h, w) = grid_shape source in
      if h = 0 \<or> w = 0 \<or> \<not> rectangular source then Inl (ExternalError ''cv2.error'')
      else Inr (map (\<lambda>y. map (\<lambda>x. source ! (y * h div 256) ! (x * w div 256)) [0..<256]) [0..<256]))"


text \<open>
  The class channel a label selects on an axis of \<open>n\<close> classes, and the labels numpy
  accepts as an index on such an axis.
\<close>

definition channel_of :: "nat \<Rightarrow> int \<Rightarrow> nat" where
  "channel_of n label = nat (if label < 0 then label + int n else label)"

definition valid_label :: "nat \<Rightarrow> int \<Rightarrow> bool" where
  "valid_label c label \<longleftrightarrow> - int c \<le> label \<and> label < int c"

text \<open>A 256 by 256 grid all of whose labels are \<open>-1\<close>.\<close>

definition minus_one_grid :: grid where
  "minus_one_grid = map (\<lambda>y. map (\<lambda>x. - 1) [0..<256]) [0..<256]"

section \<open>Theorems: normalization\<close>

lemma elems_map3: "elems (map (map (map f)) x) = f ` elems x"
  by (auto simp: elems_def)

lemma normalization_default:
  "normalization x (255 / 2) (255 / 2) = Some (map (map (map (\<lambda>v. (v - 255 / 2) / (255 / 2)))) x)"
  by (simp add: normalization_def np_divide_def np_subtract_def comp_def)

lemma preprocess_with_images_range:
  assumes "\<forall>b \<in> elems (transpose_201 cv (resize_cubic_256 cv (cvtColor_BGR2RGB cv img))). b \<le> 255"
  shows "\<exists>y. preprocess_with_images cv img = Some y \<and> (\<forall>u \<in> elems y. - 1 \<le> u \<and> u \<le> 1)"
proof -
  let ?t = "transpose_201 cv (resize_cubic_256 cv (cvtColor_BGR2RGB cv img))"
  let ?y = "map (map (map (\<lambda>v. (v - 255 / 2) / (255 / 2)))) (as_float ?t)"
  have run: "preprocess_with_images cv img = Some ?y"
    by (simp add: preprocess_with_images_def Let_def normalization_default)
  have "\<forall>u \<in> elems ?y. - 1 \<le> u \<and> u \<le> 1"
  proof
    fix u assume "u \<in> elems ?y"
    then obtain b where b: "b \<in> elems ?t" and u: "u = (rat_of_nat b - 255 / 2) / (255 / 2)"
      by (auto simp: elems_map3 as_float_def)
    from b assms have "b \<le> 255" by blast
    then have "rat_of_nat b \<le> 255" by (metis of_nat_le_iff of_nat_numeral)
    moreover have "0 \<le> rat_of_nat b" by simp
    ultimately show "- 1 \<le> u \<and> u \<le> 1" unfolding u by (simp add: field_simps)
  qed
  with run show ?thesis by blast
qed

lemma map3_id: "(\<And>v. v \<in> elems x \<Longrightarrow> f v = v) \<Longrightarrow> map (map (map f)) x = x"
  unfolding elems_def by (intro map_idI) auto

text \<open>
  C3. The normalization step computes \<open>(x - 127.5) / 127.5\<close> element by element: on
  an array whose elements are byte values in [0, 255] it returns an array of the same
  elements mapped by that formula, every one of them in [-1, 1], and the inverse affine
  map \<open>y * 127.5 + 127.5\<close> recovers the input exactly (over the rationals).
\<close>

theorem normalization_bytes_invertible:
  assumes "bytes_only x"
  shows "\<exists>y. normalization x (255 / 2) (255 / 2) = Some y
           \<and> y = map (map (map (\<lambda>v. (v - 255 / 2) / (255 / 2)))) x
           \<and> (\<forall>u \<in> elems y. - 1 \<le> u \<and> u \<le> 1)
           \<and> spec_denormalize y = x"
proof -
  let ?f = "\<lambda>v::rat. (v - 255 / 2) / (255 / 2)"
  let ?y = "map (map (map ?f)) x"
  have eq: "normalization x (255 / 2) (255 / 2) = Some ?y"
    by (rule normalization_default)
  have range: "\<forall>u \<in> elems ?y. - 1 \<le> u \<and> u \<le> 1"
  proof
    fix u assume "u \<in> elems ?y"
    then obtain v where v: "v \<in> elems x" and u: "u = ?f v"
      by (auto simp: elems_map3)
    from v assms have "0 \<le> v" "v \<le> 255" by (auto simp: bytes_only_def)
    then show "- 1 \<le> u \<and> u \<le> 1" unfolding u by (simp add: field_simps)
  qed
  have "spec_denormalize ?y = map (map (map (\<lambda>v. ?f v * (255 / 2) + 255 / 2))) x"
    by (simp add: spec_denormalize_def comp_def)
  also have "\<dots> = x"
    by (rule map3_id) (simp add: field_simps)
  finally have inv: "spec_denormalize ?y = x" .
  from eq range inv show ?thesis by blast
qed

theorem normalization_bytes_invertible_witness:
  "bytes_only [[[0, 255], [51, 128]]]
   \<and> (\<exists>y. normalization [[[0, 255], [51, 128]]] (255 / 2) (255 / 2) = Some y
           \<and> y = map (map (map (\<lambda>v. (v - 255 / 2) / (255 / 2)))) [[[0, 255], [51, 128]]]
           \<and> (\<forall>u \<in> elems y. - 1 \<le> u \<and> u \<le> 1)
           \<and> spec_denormalize y = [[[0, 255], [51, 128]]])"
proof -
  have h: "bytes_only [[[0, 255], [51, 128]]]"
    by (simp add: bytes_only_def elems_def)
  from h normalization_bytes_invertible [OF h] show ?thesis by blast
qed


section \<open>Theorems: the evaluator's state\<close>

lemma ebind_Inr_iff: "ebind r f = Inr y \<longleftrightarrow> (\<exists>v. r = Inr v \<and> f v = Inr y)"
  by (cases r) (simp_all add: ebind_def)

lemma ebind_Inl: "ebind (Inl e) f = Inl e"
  by (simp add: ebind_def)

lemma ebind_Inr: "ebind (Inr v) f = f v"
  by (simp add: ebind_def)

lemma get_attr_Inr_iff: "get_attr a = Inr v \<longleftrightarrow> a = Some v"
  by (cases a) (simp_all add: get_attr_def)

lemma invoke_Inr_iff: "invoke r m h = Inr h' \<longleftrightarrow> (\<exists>obj. m (h r) = Inr obj \<and> h' = h(r := obj))"
  by (auto simp: invoke_def ebind_Inr_iff)

lemma reset_Inr_iff:
  "reset env st = Inr st' \<longleftrightarrow>
     (\<exists>a p m h1 h2 h3.
        attr_annotations (self st) = Some a \<and> attr_predictions (self st) = Some p
        \<and> attr_metrics_results (self st) = Some m
        \<and> invoke (metric_executor (self st)) (metric_executor_reset env) (heap st) = Inr h1
        \<and> invoke (dataset (self st))
             (dataset_reset env (has_processors env (h1 (postprocessor (self st))))) h1 = Inr h2
        \<and> invoke (reader (self st)) (reader_reset env) h2 = Inr h3
        \<and> st' = st\<lparr>self := (self st)\<lparr>attr_annotations := Some [], attr_predictions := Some [],
                                          attr_metrics_results := Some []\<rparr>,
                    heap := h3\<rparr>)"
  unfolding reset_def Let_def ebind_Inr_iff get_attr_Inr_iff
  by simp (metis (no_types))


text \<open>
  C7. When \<open>reset()\<close> returns, \<open>_annotations\<close>, \<open>_predictions\<close> and
  \<open>_metrics_results\<close> are empty lists, and each of the eight collaborator fields
  refers to the object it referred to before the call; objects other than the metric
  executor, the dataset and the reader are not touched at all. \<open>reset()\<close> does return
  whenever the three attributes exist and the three collaborators' own resets return.
\<close>

theorem reset_clears_and_keeps_collaborators:
  "(reset env st = Inr st' \<longrightarrow>
      attr_annotations (self st') = Some [] \<and> attr_predictions (self st') = Some []
      \<and> attr_metrics_results (self st') = Some []
      \<and> same_collaborators (self st') (self st)
      \<and> (\<forall>r. r \<noteq> metric_executor (self st) \<and> r \<noteq> dataset (self st) \<and> r \<noteq> reader (self st)
             \<longrightarrow> heap st' r = heap st r))
   \<and> (attr_annotations (self st) \<noteq> None \<and> attr_predictions (self st) \<noteq> None
      \<and> attr_metrics_results (self st) \<noteq> None
      \<and> (\<forall>obj. \<exists>obj'. metric_executor_reset env obj = Inr obj')
      \<and> (\<forall>flag obj. \<exists>obj'. dataset_reset env flag obj = Inr obj')
      \<and> (\<forall>obj. \<exists>obj'. reader_reset env obj = Inr obj')
      \<longrightarrow> (\<exists>st''. reset env st = Inr st''))"
proof (intro conjI impI)
  assume r: "reset env st = Inr st'"
  then obtain h1 h2 h3 where
    h1: "invoke (metric_executor (self st)) (metric_executor_reset env) (heap st) = Inr h1" and
    h2: "invoke (dataset (self st))
           (dataset_reset env (has_processors env (h1 (postprocessor (self st))))) h1 = Inr h2" and
    h3: "invoke (reader (self st)) (reader_reset env) h2 = Inr h3" and
    st': "st' = st\<lparr>self := (self st)\<lparr>attr_annotations := Some [], attr_predictions := Some [],
                                       attr_metrics_results := Some []\<rparr>, heap := h3\<rparr>"
    unfolding reset_Inr_iff by blast
  show "attr_annotations (self st') = Some []" "attr_predictions (self st') = Some []"
    "attr_metrics_results (self st') = Some []"
    by (simp_all add: st')
  show "same_collaborators (self st') (self st)"
    by (simp add: st' same_collaborators_def)
  show "\<forall>r. r \<noteq> metric_executor (self st) \<and> r \<noteq> dataset (self st) \<and> r \<noteq> reader (self st)
          \<longrightarrow> heap st' r = heap st r"
    using h1 h2 h3 by (auto simp: st' invoke_Inr_iff)
next
  assume a: "attr_annotations (self st) \<noteq> None \<and> attr_predictions (self st) \<noteq> None
      \<and> attr_metrics_results (self st) \<noteq> None
      \<and> (\<forall>obj. \<exists>obj'. metric_executor_reset env obj = Inr obj')
      \<and> (\<forall>flag obj. \<exists>obj'. dataset_reset env flag obj = Inr obj')
      \<and> (\<forall>obj. \<exists>obj'. reader_reset env obj = Inr obj')"
  then obtain an pr ms where attrs: "attr_annotations (self st) = Some an"
    "attr_predictions (self st) = Some pr" "attr_metrics_results (self st) = Some ms"
    by auto
  from a obtain h1 where
    h1: "invoke (metric_executor (self st)) (metric_executor_reset env) (heap st) = Inr h1"
    unfolding invoke_Inr_iff by blast
  from a obtain h2 where
    h2: "invoke (dataset (self st))
           (dataset_reset env (has_processors env (h1 (postprocessor (self st))))) h1 = Inr h2"
    unfolding invoke_Inr_iff by blast
  from a obtain h3 where h3: "invoke (reader (self st)) (reader_reset env) h2 = Inr h3"
    unfolding invoke_Inr_iff by blast
  from attrs h1 h2 h3 show "\<exists>st''. reset env st = Inr st''"
    unfolding reset_Inr_iff by blast
qed

theorem reset_clears_and_keeps_collaborators_witness:
  "reset env0 st0 = Inr (st0\<lparr>self := init 1 2 3 4 5 6 7 8, heap := (\<lambda>_. 5)(7 := 0, 6 := 0, 2 := 0)\<rparr>)
   \<and> attr_annotations (self st0) = Some [10, 11]
   \<and> attr_annotations (self (st0\<lparr>self := init 1 2 3 4 5 6 7 8, heap := (\<lambda>_. 5)(7 := 0, 6 := 0, 2 := 0)\<rparr>)) = Some []
   \<and> same_collaborators (self (st0\<lparr>self := init 1 2 3 4 5 6 7 8, heap := (\<lambda>_. 5)(7 := 0, 6 := 0, 2 := 0)\<rparr>)) (self st0)"
proof -
  have r: "reset env0 st0 = Inr (st0\<lparr>self := init 1 2 3 4 5 6 7 8, heap := (\<lambda>_. 5)(7 := 0, 6 := 0, 2 := 0)\<rparr>)"
    by (simp add: reset_def env0_def st0_def init_def invoke_def ebind_def get_attr_def)
  have a: "attr_annotations (self st0) = Some [10, 11]"
    by (simp add: st0_def)
  from r a reset_clears_and_keeps_collaborators
    [of env0 st0 "st0\<lparr>self := init 1 2 3 4 5 6 7 8, heap := (\<lambda>_. 5)(7 := 0, 6 := 0, 2 := 0)\<rparr>"]
  show ?thesis by simp
qed

text \<open>
  C8. The property \<open>metrics_results\<close> calls itself before it does anything else, in
  every state of the evaluator: whatever the state, the recursion limit and the depth
  at which it is entered, it ends in \<open>RecursionError\<close> and never returns a value.
\<close>

theorem metrics_results_always_recursion_error:
  "metrics_results env limit depth st = Inl RecursionError"
proof (induction env limit depth st rule: metrics_results.induct)
  case (1 env limit depth st)
  show ?case
  proof (cases "limit \<le> depth")
    case True
    then show ?thesis by (subst metrics_results.simps) simp
  next
    case False
    with 1 have "metrics_results env limit (Suc depth) st = Inl RecursionError" by simp
    with False show ?thesis
      by (subst metrics_results.simps) (simp add: ebind_Inl)
  qed
qed

theorem metrics_results_always_recursion_error_witness:
  "metrics_results env0 1000 0 st0 = Inl RecursionError
   \<and> metrics_results env0 1000 0 (st0\<lparr>self := init 1 2 3 4 5 6 7 8\<rparr>) = Inl RecursionError"
  by (intro conjI metrics_results_always_recursion_error)


section \<open>Theorems: configuration\<close>

lemma from_configs_reader_type_reached:
  assumes "reaches_reader_check dataset_ctor model_config d"
  shows "from_configs_reader_type dataset_ctor model_config =
           (case reader_entry d of
              CStr data_reader_type \<Rightarrow> Inr (CStr data_reader_type, CNone)
            | CDict rd \<Rightarrow> ebind (getitem_key (reader_entry d) ''type'') (\<lambda>data_reader_type.
                 Inr (data_reader_type, reader_entry d))
            | _ \<Rightarrow> Inl (ConfigError ''reader should be dict or string''))"
proof -
  from assms obtain ni l ls ds nm dsobj m where
    m: "model_config = CDict m" and
    look: "map_of m ''network_info'' = Some ni" "map_of m ''launchers'' = Some (CList (l # ls))"
      "map_of m ''datasets'' = Some (CList (CDict d # ds))" "map_of d ''name'' = Some nm" and
    ctor: "dataset_ctor (CDict d) = Inr dsobj"
    unfolding reaches_reader_check_def by blast
  have g: "dict_get (CDict d) ''reader'' (CStr ''opencv_imread'') = Inr (reader_entry d)"
    by (simp add: reader_entry_def split: option.splits)
  have s: "\<exists>v. dict_get (CDict d) ''data_source'' CNone = Inr v"
    by (simp split: option.splits)
  then obtain v where v: "dict_get (CDict d) ''data_source'' CNone = Inr v" ..
  show ?thesis
    unfolding from_configs_reader_type_def m
    by (simp add: ebind_Inr look ctor v g del: dict_get.simps)
qed

text \<open>
  C9. In \<open>from_configs\<close>, on a configuration that reaches the reader's check, a
  \<open>reader\<close> value that is neither a string nor a dict raises
  \<open>ConfigError('reader should be dict or string')\<close>; a string or a dict (also the
  default, when the dataset has no \<open>reader\<close> entry) never raises it: a string gives
  the reader's type, a dict gives its \<open>type\<close> entry or a \<open>KeyError\<close>.
\<close>

theorem from_configs_reader_config_error:
  assumes "reaches_reader_check dataset_ctor model_config d"
  shows "(\<not> is_str (reader_entry d) \<and> \<not> is_dict (reader_entry d) \<longrightarrow>
            from_configs_reader_type dataset_ctor model_config
              = Inl (ConfigError ''reader should be dict or string''))
       \<and> (is_str (reader_entry d) \<or> is_dict (reader_entry d) \<longrightarrow>
            from_configs_reader_type dataset_ctor model_config
              \<noteq> Inl (ConfigError ''reader should be dict or string''))
       \<and> (\<forall>s. reader_entry d = CStr s \<longrightarrow>
            from_configs_reader_type dataset_ctor model_config = Inr (CStr s, CNone))
       \<and> (\<forall>rd. reader_entry d = CDict rd \<longrightarrow>
            from_configs_reader_type dataset_ctor model_config
              = (case map_of rd ''type'' of None \<Rightarrow> Inl (KeyError ''type'')
                 | Some t \<Rightarrow> Inr (t, CDict rd)))"
  unfolding from_configs_reader_type_reached [OF assms]
  by (cases "reader_entry d") (auto simp: ebind_def split: option.splits)

theorem from_configs_reader_config_error_witness:
  "reaches_reader_check dataset_ctor0
      (example_config [(''name'', CStr ''ade''), (''reader'', CInt 3)])
      [(''name'', CStr ''ade''), (''reader'', CInt 3)]
   \<and> \<not> is_str (reader_entry [(''name'', CStr ''ade''), (''reader'', CInt 3)])
   \<and> \<not> is_dict (reader_entry [(''name'', CStr ''ade''), (''reader'', CInt 3)])
   \<and> from_configs_reader_type dataset_ctor0
        (example_config [(''name'', CStr ''ade''), (''reader'', CInt 3)])
       = Inl (ConfigError ''reader should be dict or string'')
   \<and> reaches_reader_check dataset_ctor0 (example_config [(''name'', CStr ''ade'')])
        [(''name'', CStr ''ade'')]
   \<and> reader_entry [(''name'', CStr ''ade'')] = CStr ''opencv_imread''
   \<and> from_configs_reader_type dataset_ctor0 (example_config [(''name'', CStr ''ade'')])
       = Inr (CStr ''opencv_imread'', CNone)"
proof -
  let ?d1 = "[(''name'', CStr ''ade''), (''reader'', CInt 3)]"
  let ?d2 = "[(''name'', CStr ''ade'')]"
  have r1: "reaches_reader_check dataset_ctor0 (example_config ?d1) ?d1"
    by (simp add: reaches_reader_check_def example_config_def dataset_ctor0_def)
  have e1: "reader_entry ?d1 = CInt 3"
    by (simp add: reader_entry_def)
  have r2: "reaches_reader_check dataset_ctor0 (example_config ?d2) ?d2"
    by (simp add: reaches_reader_check_def example_config_def dataset_ctor0_def)
  have e2: "reader_entry ?d2 = CStr ''opencv_imread''"
    by (simp add: reader_entry_def)
  from from_configs_reader_config_error [OF r1] e1
  have c1: "from_configs_reader_type dataset_ctor0 (example_config ?d1)
       = Inl (ConfigError ''reader should be dict or string'')"
    by simp
  from from_configs_reader_config_error [OF r2] e2
  have c2: "from_configs_reader_type dataset_ctor0 (example_config ?d2)
       = Inr (CStr ''opencv_imread'', CNone)"
    by blast
  from r1 e1 c1 r2 e2 c2 show ?thesis by simp
qed

section \<open>Theorems: \<open>automatic_model_search\<close>\<close>

lemma replace_Nil: "replace_from_left old new [] = []"
  by (subst replace_from_left.simps) simp

lemma replace_match:
  "old \<noteq> [] \<Longrightarrow> prefix old s \<Longrightarrow>
     replace_from_left old new s = new @ replace_from_left old new (drop (length old) s)"
  by (subst replace_from_left.simps) auto

lemma replace_skip:
  "old \<noteq> [] \<Longrightarrow> \<not> prefix old (c # cs) \<Longrightarrow>
     replace_from_left old new (c # cs) = c # replace_from_left old new cs"
  by (subst replace_from_left.simps) simp

lemma replace_no_occurrence: "\<not> sublist old s \<Longrightarrow> replace_from_left old new s = s"
proof (induction s)
  case Nil
  show ?case by (rule replace_Nil)
next
  case (Cons c cs)
  then have old: "old \<noteq> []" and np: "\<not> prefix old (c # cs)" and "\<not> sublist old cs"
    by (auto simp: sublist_Cons_right)
  with Cons.IH show ?case by (simp add: replace_skip)
qed

lemma replace_same_length:
  "length new = length old \<Longrightarrow> length (replace_from_left old new s) = length s"
proof (induction old new s rule: replace_from_left.induct)
  case (1 old new s)
  show ?case
  proof (cases "old = [] \<or> s = []")
    case True
    then show ?thesis by (subst replace_from_left.simps) simp
  next
    case False
    then obtain c cs where s: "s = c # cs" and old: "old \<noteq> []" by (cases s) auto
    show ?thesis
    proof (cases "prefix old s")
      case True
      with 1(1) False 1(3)
      have "length (replace_from_left old new (drop (length old) s)) = length s - length old"
        by simp
      moreover from True have "length old \<le> length s" by (rule prefix_length_le)
      ultimately show ?thesis using 1(3) by (simp add: replace_match [OF old True])
    next
      case np: False
      with 1(2) False 1(3) have "length (replace_from_left old new (tl s)) = length (tl s)"
        by simp
      with np show ?thesis unfolding s by (simp add: replace_skip [OF old])
    qed
  qed
qed

lemma bin_then_no_xml: "\<not> sublist ''.xml'' r \<Longrightarrow> \<not> sublist ''.xml'' (''.bin'' @ r)"
  by (simp add: sublist_Cons_right)

lemma replace_xml_prefix_without_dot:
  "prefix t (replace_from_left ''.xml'' ''.bin'' s) \<Longrightarrow> CHR ''.'' \<notin> set t \<Longrightarrow> prefix t s"
proof (induction t arbitrary: s)
  case Nil
  then show ?case by simp
next
  case (Cons x t)
  note prems = Cons.prems
  have ne: "''.xml'' \<noteq> []" by simp
  show ?case
  proof (cases s)
    case Nil
    with prems show ?thesis by (simp add: replace_Nil)
  next
    case (Cons c cs)
    show ?thesis
    proof (cases "prefix ''.xml'' (c # cs)")
      case True
      from prems(1) have "prefix (x # t) (''.bin'' @ replace_from_left ''.xml'' ''.bin'' (drop (length ''.xml'') (c # cs)))"
        unfolding Cons replace_match [OF ne True] .
      then have "x = CHR ''.''" by simp
      with prems(2) show ?thesis by simp
    next
      case False
      from prems(1) have "prefix (x # t) (c # replace_from_left ''.xml'' ''.bin'' cs)"
        unfolding Cons replace_skip [OF ne False] .
      then have "x = c" and "prefix t (replace_from_left ''.xml'' ''.bin'' cs)" by simp_all
      moreover from prems(2) have "CHR ''.'' \<notin> set t" by simp
      ultimately have "x = c" and "prefix t cs" using Cons.IH [of cs] by simp_all
      then show ?thesis unfolding Cons by simp
    qed
  qed
qed

lemma replace_xml_leaves_none: "\<not> sublist ''.xml'' (replace_from_left ''.xml'' ''.bin'' s)"
proof (induction s rule: length_induct)
  case (1 s)
  have ne: "''.xml'' \<noteq> []" by simp
  show ?case
  proof (cases s)
    case Nil
    then show ?thesis by (simp add: replace_Nil)
  next
    case (Cons c cs)
    show ?thesis
    proof (cases "prefix ''.xml'' (c # cs)")
      case True
      have "length (drop (length ''.xml'') (c # cs)) < length s" unfolding Cons by simp
      with 1
      have "\<not> sublist ''.xml'' (replace_from_left ''.xml'' ''.bin'' (drop (length ''.xml'') (c # cs)))"
        by blast
      then show ?thesis unfolding Cons replace_match [OF ne True]
        by (rule bin_then_no_xml)
    next
      case False
      have "length cs < length s" unfolding Cons by simp
      with 1 have ih: "\<not> sublist ''.xml'' (replace_from_left ''.xml'' ''.bin'' cs)"
        by blast
      have "\<not> prefix ''.xml'' (c # replace_from_left ''.xml'' ''.bin'' cs)"
      proof
        assume p: "prefix ''.xml'' (c # replace_from_left ''.xml'' ''.bin'' cs)"
        then have c: "c = CHR ''.''" and q: "prefix ''xml'' (replace_from_left ''.xml'' ''.bin'' cs)"
          unfolding Cons_prefix_Cons by blast+
        from q have "prefix ''xml'' cs"
          by (rule replace_xml_prefix_without_dot) simp
        with c have "prefix ''.xml'' (c # cs)" by simp
        with False show False by blast
      qed
      with ih have "\<not> sublist ''.xml'' (c # replace_from_left ''.xml'' ''.bin'' cs)"
        by (simp only: sublist_Cons_right) blast
      then show ?thesis unfolding Cons replace_skip [OF ne False] .
    qed
  qed
qed

lemma upto3_cases:
  obtains "cs = []" | a where "cs = [a]" | a b where "cs = [a, b]"
    | a b d r where "cs = a # b # d # r"
proof (cases cs)
  case Nil
  then show ?thesis using that by blast
next
  case c1: (Cons a l1)
  show ?thesis
  proof (cases l1)
    case Nil
    with c1 show ?thesis using that by blast
  next
    case c2: (Cons b l2)
    show ?thesis
    proof (cases l2)
      case Nil
      with c1 c2 show ?thesis using that by blast
    next
      case (Cons d r)
      with c1 c2 show ?thesis using that by blast
    qed
  qed
qed

lemma replace_xml_suffix:
  "\<not> sublist ''.xml'' base \<Longrightarrow>
     replace_from_left ''.xml'' ''.bin'' (base @ ''.xml'') = base @ ''.bin''"
proof (induction base)
  case Nil
  have ne: "''.xml'' \<noteq> []" by simp
  have "prefix ''.xml'' ''.xml''" by simp
  from replace_match [OF ne this, of "''.bin''"] show ?case by (simp add: replace_Nil)
next
  case (Cons c cs)
  have ne: "''.xml'' \<noteq> []" by simp
  from Cons.prems have ns: "\<not> sublist ''.xml'' cs" and np: "\<not> prefix ''.xml'' (c # cs)"
    by (simp_all add: sublist_Cons_right)
  have "\<not> prefix ''.xml'' (c # (cs @ ''.xml''))"
    using np by (cases cs rule: upto3_cases) auto
  from replace_skip [OF ne this, of "''.bin''"] Cons.IH [OF ns] show ?case by simp
qed

text \<open>
  C10. \<open>automatic_model_search\<close> resolves the weights path from the configuration,
  the model path standing in when there is no \<open>weights\<close> entry. When the resolved
  path contains \<open>.xml\<close> the returned weights name is the path with \<open>.xml\<close> replaced
  by \<open>.bin\<close> (so a path \<open>base.xml\<close> gives \<open>base.bin\<close>, and no \<open>.xml\<close> is left in
  it); a path without \<open>.xml\<close> is returned unchanged.
\<close>

theorem automatic_model_search_weights:
  assumes "map_of d ''model'' = Some (CStr m)"
    and "get_path (case map_of d ''weights'' of None \<Rightarrow> CStr (path_str m) | Some w \<Rightarrow> w) = Inr p"
  shows "\<exists>weights. automatic_model_search path_str get_path (CDict d) = Inr (path_str m, weights)
           \<and> (sublist ''.xml'' p \<longrightarrow> weights = str_replace p ''.xml'' ''.bin'')
           \<and> (\<not> sublist ''.xml'' p \<longrightarrow> weights = p)
           \<and> (\<forall>base. p = base @ ''.xml'' \<and> \<not> sublist ''.xml'' base \<longrightarrow> weights = base @ ''.bin'')
           \<and> \<not> sublist ''.xml'' weights
           \<and> length weights = length p"
proof -
  let ?w = "if sublist ''.xml'' p then str_replace p ''.xml'' ''.bin'' else p"
  have g: "dict_get (CDict d) ''weights'' (CStr (path_str m))
             = Inr (case map_of d ''weights'' of None \<Rightarrow> CStr (path_str m) | Some w \<Rightarrow> w)"
    by (simp split: option.splits)
  have run: "automatic_model_search path_str get_path (CDict d) = Inr (path_str m, ?w)"
    unfolding automatic_model_search_def
    by (simp add: ebind_Inr assms g del: dict_get.simps)
  have r: "str_replace p ''.xml'' ''.bin'' = replace_from_left ''.xml'' ''.bin'' p"
    by (simp add: str_replace_def)
  have none: "\<not> sublist ''.xml'' ?w"
    by (simp add: r replace_xml_leaves_none)
  have len: "length ?w = length p"
    by (simp add: r replace_same_length)
  have suffix: "\<forall>base. p = base @ ''.xml'' \<and> \<not> sublist ''.xml'' base \<longrightarrow> ?w = base @ ''.bin''"
    by (auto simp: str_replace_def replace_xml_suffix)
  show ?thesis
  proof (intro exI [of _ ?w] conjI)
    show "automatic_model_search path_str get_path (CDict d) = Inr (path_str m, ?w)"
      by (rule run)
    show "sublist ''.xml'' p \<longrightarrow> ?w = str_replace p ''.xml'' ''.bin''" by simp
    show "\<not> sublist ''.xml'' p \<longrightarrow> ?w = p" by simp
    show "\<forall>base. p = base @ ''.xml'' \<and> \<not> sublist ''.xml'' base \<longrightarrow> ?w = base @ ''.bin''"
      by (rule suffix)
    show "\<not> sublist ''.xml'' ?w" by (rule none)
    show "length ?w = length p" by (rule len)
  qed
qed

theorem automatic_model_search_weights_witness:
  "map_of [(''model'', CStr ''corr.xml'')] ''model'' = Some (CStr ''corr.xml'')
   \<and> get_path0 (case map_of [(''model'', CStr ''corr.xml'')] ''weights'' of
                  None \<Rightarrow> CStr (id ''corr.xml'') | Some w \<Rightarrow> w) = Inr ''corr.xml''
   \<and> sublist ''.xml'' ''corr.xml''
   \<and> automatic_model_search id get_path0 (CDict [(''model'', CStr ''corr.xml'')])
       = Inr (''corr.xml'', ''corr.bin'')"
proof -
  have h1: "map_of [(''model'', CStr ''corr.xml'')] ''model'' = Some (CStr ''corr.xml'')"
    by simp
  have h2: "get_path0 (case map_of [(''model'', CStr ''corr.xml'')] ''weights'' of
                  None \<Rightarrow> CStr (id ''corr.xml'') | Some w \<Rightarrow> w) = Inr ''corr.xml''"
    by (simp add: get_path0_def)
  have h3: "sublist ''.xml'' ''corr.xml''"
    by (simp add: sublist_Cons_right)
  have "\<not> sublist ''.xml'' ''corr''"
    by (simp add: sublist_Cons_right)
  then have h4: "''corr.xml'' = ''corr'' @ ''.xml'' \<and> \<not> sublist ''.xml'' ''corr''"
    by simp
  from automatic_model_search_weights [where path_str = id and get_path = get_path0, OF h1 h2]
  obtain weights where
    run: "automatic_model_search id get_path0 (CDict [(''model'', CStr ''corr.xml'')])
            = Inr (id ''corr.xml'', weights)" and
    suf: "\<forall>base. ''corr.xml'' = base @ ''.xml'' \<and> \<not> sublist ''.xml'' base
            \<longrightarrow> weights = base @ ''.bin''"
    by blast
  from suf h4 have "weights = ''corr'' @ ''.bin''" by blast
  with run have "automatic_model_search id get_path0 (CDict [(''model'', CStr ''corr.xml'')])
       = Inr (''corr.xml'', ''corr.bin'')"
    by simp
  with h1 h2 h3 show ?thesis by (intro conjI)
qed

section \<open>Theorems: \<open>_get_batch_input\<close>\<close>

lemma traverse_Inr_iff:
  "traverse f xs = Inr ys \<longleftrightarrow> list_all2 (\<lambda>x y. f x = Inr y) xs ys"
proof (induction xs arbitrary: ys)
  case Nil
  show ?case by auto
next
  case (Cons x xs)
  show ?case
    by (cases ys; cases "f x"; cases "traverse f xs") (auto simp: Cons.IH [symmetric])
qed

lemma process_data_Inr:
  assumes "process_data c anns i ks ds calls = Inr (ds', calls')"
    and "distinct ks" and "\<forall>k \<in> set ks. k < length ds"
  shows "length ds' = length ds
       \<and> (\<forall>k < length ds. if k \<in> set ks then process c (chosen k) anns (ds ! k) = Inr (ds' ! k)
                           else ds' ! k = ds ! k)
       \<and> calls' = calls @ map (\<lambda>k. (i, k, chosen k)) ks"
  using assms
proof (induction ks arbitrary: ds calls)
  case Nil
  then show ?case by simp
next
  case (Cons k ks)
  have ch: "(if k mod 2 \<noteq> 0 then Preprocessor_image else Preprocessor_mask) = chosen k"
    by (auto simp: chosen_def even_iff_mod_2_eq_zero)
  have step: "process_data c anns i (k # ks) ds calls =
      (case process c (chosen k) anns (ds ! k) of
         Inl e \<Rightarrow> Inl e
       | Inr d' \<Rightarrow> process_data c anns i ks (ds[k := d']) (calls @ [(i, k, chosen k)]))"
    by (simp only: process_data.simps Let_def ch)
  from Cons.prems(1) obtain d' where
    d': "process c (chosen k) anns (ds ! k) = Inr d'" and
    rest: "process_data c anns i ks (ds[k := d']) (calls @ [(i, k, chosen k)]) = Inr (ds', calls')"
    unfolding step by (auto split: sum.splits)
  from Cons.prems have dist: "distinct ks" and notin: "k \<notin> set ks" and
    k: "k < length ds" and bound: "\<forall>j \<in> set ks. j < length (ds[k := d'])"
    by simp_all
  from Cons.IH [OF rest dist bound]
  have len: "length ds' = length ds" and
    each: "\<forall>j < length ds. if j \<in> set ks then process c (chosen j) anns (ds[k := d'] ! j) = Inr (ds' ! j)
                             else ds' ! j = ds[k := d'] ! j" and
    log: "calls' = (calls @ [(i, k, chosen k)]) @ map (\<lambda>k. (i, k, chosen k)) ks"
    by simp_all
  have "\<forall>j < length ds. if j \<in> set (k # ks) then process c (chosen j) anns (ds ! j) = Inr (ds' ! j)
                             else ds' ! j = ds ! j"
  proof (intro allI impI)
    fix j assume j: "j < length ds"
    show "if j \<in> set (k # ks) then process c (chosen j) anns (ds ! j) = Inr (ds' ! j)
          else ds' ! j = ds ! j"
    proof (cases "j = k")
      case True
      with each j notin k have "ds' ! k = d'" by simp
      with True d' show ?thesis by simp
    next
      case False
      with each j show ?thesis by (auto split: if_splits)
    qed
  qed
  with len log show ?case by simp
qed


lemma process_batch_Inr:
  assumes "process_batch c anns js batch calls = Inr (batch', calls')"
    and "distinct js" and "\<forall>i \<in> set js. i < length batch"
  shows "length batch' = length batch
       \<and> (\<forall>i < length batch.
            if i \<in> set js
            then length (data (batch' ! i)) = length (data (batch ! i))
               \<and> (\<forall>k < length (data (batch ! i)).
                    process c (chosen k) anns (data (batch ! i) ! k) = Inr (data (batch' ! i) ! k))
            else batch' ! i = batch ! i)
       \<and> calls' = calls @ concat (map (\<lambda>i. map (\<lambda>k. (i, k, chosen k)) [0..<length (data (batch ! i))]) js)"
  using assms
proof (induction js arbitrary: batch calls)
  case Nil
  then show ?case by simp
next
  case (Cons i js)
  let ?b1 = "\<lambda>ds. batch[i := (batch ! i)\<lparr>data := ds\<rparr>]"
  from Cons.prems(1) obtain ds calls1 where
    inner: "process_data c anns i [0..<length (data (batch ! i))] (data (batch ! i)) calls = Inr (ds, calls1)" and
    rest: "process_batch c anns js (?b1 ds) calls1 = Inr (batch', calls')"
    by (auto split: sum.splits)
  from Cons.prems have dist: "distinct js" and notin: "i \<notin> set js" and
    i: "i < length batch" and bound: "\<forall>j \<in> set js. j < length (?b1 ds)"
    by simp_all
  from process_data_Inr [OF inner] have
    len_ds: "length ds = length (data (batch ! i))" and
    each_ds: "\<forall>k < length (data (batch ! i)).
                process c (chosen k) anns (data (batch ! i) ! k) = Inr (ds ! k)" and
    calls1: "calls1 = calls @ map (\<lambda>k. (i, k, chosen k)) [0..<length (data (batch ! i))]"
    by simp_all
  from Cons.IH [OF rest dist bound] have
    len: "length batch' = length batch" and
    each: "\<forall>j < length batch.
            if j \<in> set js
            then length (data (batch' ! j)) = length (data (?b1 ds ! j))
               \<and> (\<forall>k < length (data (?b1 ds ! j)).
                    process c (chosen k) anns (data (?b1 ds ! j) ! k) = Inr (data (batch' ! j) ! k))
            else batch' ! j = ?b1 ds ! j" and
    calls': "calls' = calls1 @ concat (map (\<lambda>j. map (\<lambda>k. (j, k, chosen k)) [0..<length (data (?b1 ds ! j))]) js)"
    by simp_all
  have same: "\<And>j. j \<in> set js \<Longrightarrow> ?b1 ds ! j = batch ! j"
    using notin by (metis nth_list_update_neq)
  have "\<forall>j < length batch.
            if j \<in> set (i # js)
            then length (data (batch' ! j)) = length (data (batch ! j))
               \<and> (\<forall>k < length (data (batch ! j)).
                    process c (chosen k) anns (data (batch ! j) ! k) = Inr (data (batch' ! j) ! k))
            else batch' ! j = batch ! j"
  proof (intro allI impI)
    fix j assume j: "j < length batch"
    show "if j \<in> set (i # js)
            then length (data (batch' ! j)) = length (data (batch ! j))
               \<and> (\<forall>k < length (data (batch ! j)).
                    process c (chosen k) anns (data (batch ! j) ! k) = Inr (data (batch' ! j) ! k))
            else batch' ! j = batch ! j"
    proof (cases "j = i")
      case True
      with each i notin have "batch' ! i = (batch ! i)\<lparr>data := ds\<rparr>" by simp
      with True len_ds each_ds show ?thesis by simp
    next
      case False
      show ?thesis
      proof (cases "j \<in> set js")
        case True
        from each j True
        have "length (data (batch' ! j)) = length (data (?b1 ds ! j))
               \<and> (\<forall>k < length (data (?b1 ds ! j)).
                    process c (chosen k) anns (data (?b1 ds ! j) ! k) = Inr (data (batch' ! j) ! k))"
          by simp
        then show ?thesis using True unfolding same [OF True] by simp
      next
        case notin_js: False
        with each j False show ?thesis by simp
      qed
    qed
  qed
  moreover have "calls' = calls @ concat (map (\<lambda>j. map (\<lambda>k. (j, k, chosen k)) [0..<length (data (batch ! j))]) (i # js))"
  proof -
    have "map (\<lambda>j. map (\<lambda>k. (j, k, chosen k)) [0..<length (data (?b1 ds ! j))]) js
        = map (\<lambda>j. map (\<lambda>k. (j, k, chosen k)) [0..<length (data (batch ! j))]) js"
      by (rule map_cong) (simp_all add: same)
    with calls' calls1 show ?thesis by simp
  qed
  ultimately show ?case using len by simp
qed

lemma process_data_total:
  assumes "\<And>p anns d. \<exists>d'. process c p anns d = Inr d'"
  shows "\<exists>r. process_data c anns i ks ds calls = Inr r"
proof (induction ks arbitrary: ds calls)
  case Nil
  show ?case by simp
next
  case (Cons k ks)
  let ?p = "if k mod 2 \<noteq> 0 then Preprocessor_image else Preprocessor_mask"
  from assms obtain d' where "process c ?p anns (ds ! k) = Inr d'" by blast
  with Cons.IH [of "ds[k := d']" "calls @ [(i, k, ?p)]"] show ?case
    by (simp only: process_data.simps Let_def sum.case)
qed

lemma process_batch_total:
  assumes "\<And>p anns d. \<exists>d'. process c p anns d = Inr d'"
  shows "\<exists>r. process_batch c anns js batch calls = Inr r"
proof (induction js arbitrary: batch calls)
  case Nil
  show ?case by simp
next
  case (Cons i js)
  from process_data_total [OF assms] obtain ds calls1 where
    "process_data c anns i [0..<length (data (batch ! i))] (data (batch ! i)) calls = Inr (ds, calls1)"
    by (metis surj_pair)
  with Cons.IH [of "batch[i := (batch ! i)\<lparr>data := ds\<rparr>]" calls1] show ?case
    by simp
qed

lemma traverse_total:
  assumes "\<And>x. \<exists>y. f x = Inr y"
  shows "\<exists>ys. traverse f xs = Inr ys"
proof (induction xs)
  case Nil
  show ?case by simp
next
  case (Cons x xs)
  from assms obtain y where "f x = Inr y" by blast
  with Cons.IH show ?case by auto
qed

text \<open>
  C6. When the evaluator builds a batch input, every data channel of every sample is
  processed exactly once: the channel at an even index by the mask preprocessor, the
  channel at an odd index by the image preprocessor, and the result replaces the
  channel in place. The recorded calls are, sample by sample and index by index, one
  call per channel with the preprocessor its parity selects. The function returns
  whenever none of its collaborators raises.
\<close>

theorem get_batch_input_alternates:
  "(get_batch_input c anns = Inr (filled, meta, ids, anns1, calls) \<longrightarrow>
      (\<exists>raw batch.
         traverse (reader_call c) (map (annotation_identifier c) anns) = Inr raw
         \<and> filled = [batch] \<and> length batch = length raw
         \<and> (\<forall>i < length raw.
              length (data (batch ! i)) = length (data (raw ! i))
              \<and> (\<forall>k < length (data (raw ! i)).
                   (even k \<longrightarrow> mask_process c anns1 (data (raw ! i) ! k) = Inr (data (batch ! i) ! k))
                   \<and> (odd k \<longrightarrow> image_process c anns1 (data (raw ! i) ! k) = Inr (data (batch ! i) ! k))))
         \<and> calls = expected_calls raw))
   \<and> (never_raises c \<longrightarrow> (\<exists>r. get_batch_input c anns = Inr r))"
proof (intro conjI impI)
  assume run: "get_batch_input c anns = Inr (filled, meta, ids, anns1, calls)"
  then obtain raw batch x where
    raw: "traverse (reader_call c) (map (annotation_identifier c) anns) = Inr raw" and
    loop: "process_batch c anns1 [0..<length raw] raw [] = Inr (batch, calls)" and
    filled: "filled = [batch]"
    unfolding get_batch_input_def Let_def by (auto simp: ebind_Inr_iff split: prod.splits)
  from process_batch_Inr [OF loop] have
    len: "length batch = length raw" and
    each: "\<forall>i < length raw.
            length (data (batch ! i)) = length (data (raw ! i))
            \<and> (\<forall>k < length (data (raw ! i)).
                 process c (chosen k) anns1 (data (raw ! i) ! k) = Inr (data (batch ! i) ! k))" and
    calls: "calls = expected_calls raw"
    by (simp_all add: expected_calls_def)
  have "\<forall>i < length raw.
          length (data (batch ! i)) = length (data (raw ! i))
          \<and> (\<forall>k < length (data (raw ! i)).
               (even k \<longrightarrow> mask_process c anns1 (data (raw ! i) ! k) = Inr (data (batch ! i) ! k))
               \<and> (odd k \<longrightarrow> image_process c anns1 (data (raw ! i) ! k) = Inr (data (batch ! i) ! k)))"
    using each by (auto simp: chosen_def split: if_splits)
  with raw filled len calls
  show "\<exists>raw batch.
         traverse (reader_call c) (map (annotation_identifier c) anns) = Inr raw
         \<and> filled = [batch] \<and> length batch = length raw
         \<and> (\<forall>i < length raw.
              length (data (batch ! i)) = length (data (raw ! i))
              \<and> (\<forall>k < length (data (raw ! i)).
                   (even k \<longrightarrow> mask_process c anns1 (data (raw ! i) ! k) = Inr (data (batch ! i) ! k))
                   \<and> (odd k \<longrightarrow> image_process c anns1 (data (raw ! i) ! k) = Inr (data (batch ! i) ! k))))
         \<and> calls = expected_calls raw"
    by blast
next
  assume nr: "never_raises c"
  then have p: "\<And>p anns d. \<exists>d'. process c p anns d = Inr d'"
    unfolding never_raises_def by (case_tac p) simp_all
  from nr obtain raw where
    raw: "traverse (reader_call c) (map (annotation_identifier c) anns) = Inr raw"
    unfolding never_raises_def by (meson traverse_total)
  from nr have "\<exists>ys. traverse (\<lambda>(annotation, input_data). set_annotation_metadata c annotation input_data)
               (zip anns raw) = Inr ys"
    unfolding never_raises_def by (intro traverse_total) auto
  then obtain anns1 where
    anns1: "traverse (\<lambda>(annotation, input_data). set_annotation_metadata c annotation input_data)
               (zip anns raw) = Inr anns1" ..
  from process_batch_total [OF p] obtain batch calls where
    loop: "process_batch c anns1 [0..<length raw] raw [] = Inr (batch, calls)"
    by (metis surj_pair)
  from nr obtain imgs meta where ex: "extract_image_representations c batch = Inr (imgs, meta)"
    unfolding never_raises_def by (metis surj_pair)
  show "\<exists>r. get_batch_input c anns = Inr r"
    unfolding get_batch_input_def Let_def
    by (simp add: raw anns1 loop ex ebind_Inr)
qed

lemma batch0_run:
  "get_batch_input batch0 [7] =
     Inr ([[\<lparr>data = [''aM'', ''bI'', ''cM''], metadata = 7\<rparr>]], [7], [7], [7],
          [(0, 0, Preprocessor_mask), (0, 1, Preprocessor_image), (0, 2, Preprocessor_mask)])"
  by (simp add: get_batch_input_def batch0_def ebind_def upt_rec Let_def)

theorem get_batch_input_alternates_witness:
  "get_batch_input batch0 [7] =
     Inr ([[\<lparr>data = [''aM'', ''bI'', ''cM''], metadata = 7\<rparr>]], [7], [7], [7],
          [(0, 0, Preprocessor_mask), (0, 1, Preprocessor_image), (0, 2, Preprocessor_mask)])
   \<and> never_raises batch0
   \<and> (\<exists>raw. traverse (reader_call batch0) (map (annotation_identifier batch0) [7]) = Inr raw
          \<and> [(0, 0, Preprocessor_mask), (0, 1, Preprocessor_image), (0, 2, Preprocessor_mask)]
              = expected_calls raw)"
proof -
  have nr: "never_raises batch0"
    by (simp add: never_raises_def batch0_def)
  from batch0_run get_batch_input_alternates
    [of batch0 "[7]" "[[\<lparr>data = [''aM'', ''bI'', ''cM''], metadata = 7\<rparr>]]" "[7]" "[7]" "[7]"
        "[(0, 0, Preprocessor_mask), (0, 1, Preprocessor_image), (0, 2, Preprocessor_mask)]"]
  have "\<exists>raw. traverse (reader_call batch0) (map (annotation_identifier batch0) [7]) = Inr raw
          \<and> [(0, 0, Preprocessor_mask), (0, 1, Preprocessor_image), (0, 2, Preprocessor_mask)]
              = expected_calls raw"
    by blast
  with batch0_run nr show ?thesis by (intro conjI)
qed

section \<open>Theorems: \<open>CocosnetModel.predict\<close>\<close>

lemma predict_loop_traverse:
  "predict_loop m inputs results =
     (case traverse (predict_body m) inputs of Inl e \<Rightarrow> Inl e | Inr rs \<Rightarrow> Inr (results @ rs))"
  by (induction inputs arbitrary: results) (auto split: sum.splits)

lemma predict_traverse: "predict m inputs = traverse (predict_body m) inputs"
  by (simp add: predict_def predict_loop_traverse split: sum.splits)

lemma list_getitem0_Inr_iff: "list_getitem0 xs = Inr x \<longleftrightarrow> (\<exists>r. xs = x # r)"
  by (cases xs) (auto simp: list_getitem0_def)

lemma blob_getitem_Inr_iff: "blob_getitem d k = Inr v \<longleftrightarrow> map_of d k = Some v"
  by (simp add: blob_getitem_def split: option.splits)

lemma predict_body_Inr_iff:
  "predict_body m inp = Inr result \<longleftrightarrow>
     (\<exists>inp_0 others corr_out warped_reference input_semantics gen_input.
        fill_inputs m inp = Inr (inp_0 # others)
        \<and> correspondence_infer m inp_0 = Inr corr_out
        \<and> map_of corr_out (key_of_warped_reference m) = Some warped_reference
        \<and> map_of inp_0 (key_of_input_semantics m) = Some input_semantics
        \<and> np_concatenate_axis1 warped_reference input_semantics = Inr gen_input
        \<and> generator_infer m [(input_blob m, gen_input)] = Inr result)"
  unfolding predict_body_def ebind_Inr_iff list_getitem0_Inr_iff blob_getitem_Inr_iff
    correspondence_fit_to_input_def correspondence_predict_def generator_predict_def
    generator_fit_to_input_def
  by blast

text \<open>
  C2. \<open>CocosnetModel.predict\<close> returns a list exactly when every sample goes through
  the loop body, and then the list has one prediction per sample, in input order: the
  prediction at index \<open>i\<close> is what the generator returns for the concatenation, along
  axis 1, of the warped reference the correspondence network returns for sample \<open>i\<close>
  with that sample's input semantics. When no stage raises, a list of the inputs'
  length is returned.
\<close>

theorem predict_in_input_order:
  "(predict m inputs = Inr results \<longleftrightarrow>
      length results = length inputs
      \<and> (\<forall>i < length inputs.
           \<exists>inp_0 others corr_out warped_reference input_semantics gen_input.
             fill_inputs m (inputs ! i) = Inr (inp_0 # others)
             \<and> correspondence_infer m inp_0 = Inr corr_out
             \<and> map_of corr_out (key_of_warped_reference m) = Some warped_reference
             \<and> map_of inp_0 (key_of_input_semantics m) = Some input_semantics
             \<and> np_concatenate_axis1 warped_reference input_semantics = Inr gen_input
             \<and> generator_infer m [(input_blob m, gen_input)] = Inr (results ! i)))
   \<and> ((\<forall>inp. \<exists>result. predict_body m inp = Inr result)
        \<longrightarrow> (\<exists>rs. predict m inputs = Inr rs \<and> length rs = length inputs))"
proof (intro conjI impI)
  show "predict m inputs = Inr results \<longleftrightarrow>
      length results = length inputs
      \<and> (\<forall>i < length inputs.
           \<exists>inp_0 others corr_out warped_reference input_semantics gen_input.
             fill_inputs m (inputs ! i) = Inr (inp_0 # others)
             \<and> correspondence_infer m inp_0 = Inr corr_out
             \<and> map_of corr_out (key_of_warped_reference m) = Some warped_reference
             \<and> map_of inp_0 (key_of_input_semantics m) = Some input_semantics
             \<and> np_concatenate_axis1 warped_reference input_semantics = Inr gen_input
             \<and> generator_infer m [(input_blob m, gen_input)] = Inr (results ! i))"
    unfolding predict_traverse traverse_Inr_iff list_all2_conv_all_nth predict_body_Inr_iff
    by (rule iffI) simp_all
next
  assume "\<forall>inp. \<exists>result. predict_body m inp = Inr result"
  then obtain rs where rs: "traverse (predict_body m) inputs = Inr rs"
    by (meson traverse_total)
  then have "length rs = length inputs"
    unfolding traverse_Inr_iff by (simp add: list_all2_lengthD)
  with rs show "\<exists>rs. predict m inputs = Inr rs \<and> length rs = length inputs"
    by (simp add: predict_traverse)
qed

lemma concat0: "np_concatenate_axis1 warped0 semantics0 = Inr gen_input0"
  by (simp add: np_concatenate_axis1_def warped0_def semantics0_def gen_input0_def upt_rec)

lemma predict_body0: "predict_body (model_with warped0) semantics0 = Inr gen_input0"
  unfolding predict_body_Inr_iff
  by (simp add: model_with_def concat0)

lemma predict0: "predict (model_with warped0) [semantics0, semantics0] = Inr [gen_input0, gen_input0]"
  by (simp add: predict_def predict_body0)

theorem predict_in_input_order_witness:
  "predict (model_with warped0) [semantics0, semantics0] = Inr [gen_input0, gen_input0]
   \<and> length [gen_input0, gen_input0] = length [semantics0, semantics0]
   \<and> (\<exists>inp_0 others corr_out warped_reference input_semantics gen_input.
         fill_inputs (model_with warped0) ([semantics0, semantics0] ! 1) = Inr (inp_0 # others)
         \<and> correspondence_infer (model_with warped0) inp_0 = Inr corr_out
         \<and> map_of corr_out (key_of_warped_reference (model_with warped0)) = Some warped_reference
         \<and> map_of inp_0 (key_of_input_semantics (model_with warped0)) = Some input_semantics
         \<and> np_concatenate_axis1 warped_reference input_semantics = Inr gen_input
         \<and> generator_infer (model_with warped0) [(input_blob (model_with warped0), gen_input)]
             = Inr ([gen_input0, gen_input0] ! 1))"
proof -
  from predict0 predict_in_input_order
    [of "model_with warped0" "[semantics0, semantics0]" "[gen_input0, gen_input0]"]
  have all: "\<forall>i < length [semantics0, semantics0].
           \<exists>inp_0 others corr_out warped_reference input_semantics gen_input.
             fill_inputs (model_with warped0) ([semantics0, semantics0] ! i) = Inr (inp_0 # others)
             \<and> correspondence_infer (model_with warped0) inp_0 = Inr corr_out
             \<and> map_of corr_out (key_of_warped_reference (model_with warped0)) = Some warped_reference
             \<and> map_of inp_0 (key_of_input_semantics (model_with warped0)) = Some input_semantics
             \<and> np_concatenate_axis1 warped_reference input_semantics = Inr gen_input
             \<and> generator_infer (model_with warped0) [(input_blob (model_with warped0), gen_input)]
                 = Inr ([gen_input0, gen_input0] ! i)"
    by blast
  have "(1::nat) < length [semantics0, semantics0]" by simp
  with all have "\<exists>inp_0 others corr_out warped_reference input_semantics gen_input.
         fill_inputs (model_with warped0) ([semantics0, semantics0] ! 1) = Inr (inp_0 # others)
         \<and> correspondence_infer (model_with warped0) inp_0 = Inr corr_out
         \<and> map_of corr_out (key_of_warped_reference (model_with warped0)) = Some warped_reference
         \<and> map_of inp_0 (key_of_input_semantics (model_with warped0)) = Some input_semantics
         \<and> np_concatenate_axis1 warped_reference input_semantics = Inr gen_input
         \<and> generator_infer (model_with warped0) [(input_blob (model_with warped0), gen_input)]
             = Inr ([gen_input0, gen_input0] ! 1)"
    by blast
  with predict0 show ?thesis by simp
qed

lemma traverse_Inl:
  assumes "x \<in> set xs" and "f x = Inl e"
  shows "\<exists>e'. traverse f xs = Inl e'"
proof (cases "traverse f xs")
  case (Inl e')
  then show ?thesis by blast
next
  case (Inr ys)
  then have "list_all2 (\<lambda>x y. f x = Inr y) xs ys" by (simp add: traverse_Inr_iff)
  with assms(1) obtain y where "f x = Inr y"
    by (auto simp: list_all2_conv_all_nth in_set_conv_nth)
  with assms(2) show ?thesis by simp
qed

lemma predict_body_concat_error:
  assumes "fill_inputs m inp = Inr (inp_0 # others)"
    and "correspondence_infer m inp_0 = Inr corr_out"
    and "map_of corr_out (key_of_warped_reference m) = Some a"
    and "map_of inp_0 (key_of_input_semantics m) = Some b"
    and "np_concatenate_axis1 a b = Inl e"
  shows "predict_body m inp = Inl e"
  using assms
  by (simp add: predict_body_def correspondence_fit_to_input_def correspondence_predict_def
      list_getitem0_def blob_getitem_def ebind_Inr ebind_Inl)

text \<open>
  Channel counts that differ are no error: a warped reference with one channel and an
  input semantics with two are concatenated, and \<open>predict\<close> returns normally.
\<close>

theorem predict_concatenation_mismatch_counterexample:
  "shape warped0 ! 1 \<noteq> shape semantics0 ! 1
   \<and> predict (model_with warped0) [semantics0] = Inr [gen_input0]"
  by (simp add: predict_def predict_body0) (simp add: warped0_def semantics0_def)

text \<open>
  C4 (as amended). The concatenation in \<open>predict\<close> is along axis 1. Two tensors
  that agree in every axis but axis 1 are concatenated whatever their channel counts,
  the result having the sum of the two counts as its channel count. Two tensors of the
  same rank (at least 2) that differ in an axis other than axis 1, the batch axis or a
  spatial one, make the concatenation raise \<open>ValueError\<close>; and whenever the
  concatenation raises for a sample, the loop body raises that error and \<open>predict\<close>
  returns an error and no list of predictions.
\<close>

theorem concatenate_along_channels:
  "(shape a = n # c1 # rest \<and> shape b = n # c2 # rest \<longrightarrow>
      (\<exists>c. np_concatenate_axis1 a b = Inr c \<and> shape c = n # (c1 + c2) # rest))
   \<and> (length (shape a) = length (shape b) \<and> 2 \<le> length (shape a)
        \<and> (shape a)[1 := 0] \<noteq> (shape b)[1 := 0] \<longrightarrow>
      np_concatenate_axis1 a b = Inl ValueError)
   \<and> (inp \<in> set inputs \<and> fill_inputs m inp = Inr (inp_0 # others)
        \<and> correspondence_infer m inp_0 = Inr corr_out
        \<and> map_of corr_out (key_of_warped_reference m) = Some a
        \<and> map_of inp_0 (key_of_input_semantics m) = Some b
        \<and> np_concatenate_axis1 a b = Inl e \<longrightarrow>
      predict_body m inp = Inl e \<and> (\<exists>e'. predict m inputs = Inl e'))"
proof (intro conjI impI)
  assume "shape a = n # c1 # rest \<and> shape b = n # c2 # rest"
  then show "\<exists>c. np_concatenate_axis1 a b = Inr c \<and> shape c = n # (c1 + c2) # rest"
    by (simp add: np_concatenate_axis1_def)
next
  assume h: "length (shape a) = length (shape b) \<and> 2 \<le> length (shape a)
        \<and> (shape a)[1 := 0] \<noteq> (shape b)[1 := 0]"
  then obtain n c1 rest where a: "shape a = n # c1 # rest"
    by (cases "shape a"; cases "tl (shape a)") auto
  with h obtain k c2 rest' where b: "shape b = k # c2 # rest'"
    by (cases "shape b"; cases "tl (shape b)") auto
  from h a b have "\<not> (n = k \<and> rest = rest')" by auto
  with a b show "np_concatenate_axis1 a b = Inl ValueError"
    by (auto simp: np_concatenate_axis1_def)
next
  assume h: "inp \<in> set inputs \<and> fill_inputs m inp = Inr (inp_0 # others)
        \<and> correspondence_infer m inp_0 = Inr corr_out
        \<and> map_of corr_out (key_of_warped_reference m) = Some a
        \<and> map_of inp_0 (key_of_input_semantics m) = Some b
        \<and> np_concatenate_axis1 a b = Inl e"
  then show "predict_body m inp = Inl e"
    by (simp add: predict_body_concat_error)
next
  assume h: "inp \<in> set inputs \<and> fill_inputs m inp = Inr (inp_0 # others)
        \<and> correspondence_infer m inp_0 = Inr corr_out
        \<and> map_of corr_out (key_of_warped_reference m) = Some a
        \<and> map_of inp_0 (key_of_input_semantics m) = Some b
        \<and> np_concatenate_axis1 a b = Inl e"
  then have body: "predict_body m inp = Inl e"
    by (simp add: predict_body_concat_error)
  from h have "inp \<in> set inputs" by simp
  from traverse_Inl [of inp inputs "predict_body m" e, OF this body]
  show "\<exists>e'. predict m inputs = Inl e'"
    by (simp add: predict_traverse)
qed

theorem concatenate_along_channels_witness:
  "shape warped0 = 1 # 1 # [1, 2] \<and> shape semantics0 = 1 # 2 # [1, 2]
   \<and> (\<exists>c. np_concatenate_axis1 warped0 semantics0 = Inr c \<and> shape c = 1 # (1 + 2) # [1, 2])
   \<and> (shape warped_bad)[1 := 0] \<noteq> (shape semantics0)[1 := 0]
   \<and> np_concatenate_axis1 warped_bad semantics0 = Inl ValueError
   \<and> predict_body (model_with warped_bad) semantics0 = Inl ValueError
   \<and> (\<exists>e'. predict (model_with warped_bad) [semantics0, semantics0] = Inl e')"
proof -
  have s: "shape warped0 = 1 # 1 # [1, 2] \<and> shape semantics0 = 1 # 2 # [1, 2]"
    by (simp add: warped0_def semantics0_def)
  have d: "length (shape warped_bad) = length (shape semantics0) \<and> 2 \<le> length (shape warped_bad)
        \<and> (shape warped_bad)[1 := 0] \<noteq> (shape semantics0)[1 := 0]"
    by (simp add: warped_bad_def semantics0_def)
  note t = concatenate_along_channels
    [of warped_bad _ _ _ semantics0 _ semantics0 "[semantics0, semantics0]" "model_with warped_bad"
        "[(''input_semantics'', semantics0)]" "[]" "[(''warped'', warped_bad)]" ValueError]
  from d t have bad: "np_concatenate_axis1 warped_bad semantics0 = Inl ValueError"
    by blast
  have pre: "semantics0 \<in> set [semantics0, semantics0]
     \<and> fill_inputs (model_with warped_bad) semantics0 = Inr ([(''input_semantics'', semantics0)] # [])
     \<and> correspondence_infer (model_with warped_bad) [(''input_semantics'', semantics0)]
         = Inr [(''warped'', warped_bad)]
     \<and> map_of [(''warped'', warped_bad)] (key_of_warped_reference (model_with warped_bad)) = Some warped_bad
     \<and> map_of [(''input_semantics'', semantics0)] (key_of_input_semantics (model_with warped_bad))
         = Some semantics0"
    by (simp add: model_with_def)
  from pre bad t
  have abort: "predict_body (model_with warped_bad) semantics0 = Inl ValueError
     \<and> (\<exists>e'. predict (model_with warped_bad) [semantics0, semantics0] = Inl e')"
    by blast
  from s concatenate_along_channels [of warped0 1 1 "[1, 2]" semantics0 2, THEN conjunct1]
  have ok: "\<exists>c. np_concatenate_axis1 warped0 semantics0 = Inr c \<and> shape c = 1 # (1 + 2) # [1, 2]"
    by blast
  from s ok d bad abort show ?thesis by blast
qed

section \<open>Theorems: \<open>scatter\<close> and \<open>preprocess_with_semantics\<close>\<close>

lemma np_index_int: "np_index n (int i) = (if i < n then Inr i else Inl IndexError)"
  by (simp add: np_index_def)

lemma np_index_label:
  "np_index n label =
     (if - int n \<le> label \<and> label < int n then Inr (channel_of n label) else Inl IndexError)"
  by (auto simp: np_index_def channel_of_def)

lemma channel_of_less: "- int n \<le> label \<Longrightarrow> label < int n \<Longrightarrow> channel_of n label < n"
  by (auto simp: channel_of_def)

lemma channel_of_nonneg: "0 \<le> label \<Longrightarrow> channel_of n label = nat label"
  by (simp add: channel_of_def)

lemma grid_getitem_cases:
  "grid_getitem source i j =
     (if i < length source \<and> j < length (source ! i) then Inr (source ! i ! j) else Inl IndexError)"
  by (simp add: grid_getitem_def np_index_int ebind_def)

lemma setitem_one_cases:
  assumes "has_shape out (Suc 0) c h w"
  shows "setitem_one out label i j =
     (if - int c \<le> label \<and> label < int c \<and> i < h \<and> j < w
      then Inr (out[0 := (out ! 0)[channel_of c label :=
                  (out ! 0 ! channel_of c label)[i := (out ! 0 ! channel_of c label ! i)[j := 1]]]])
      else Inl IndexError)"
proof -
  from assms have l0: "length out = Suc 0" and l1: "length (out ! 0) = c"
    and l2: "\<And>k. k < c \<Longrightarrow> length (out ! 0 ! k) = h"
    and l3: "\<And>k r. k < c \<Longrightarrow> r < h \<Longrightarrow> length (out ! 0 ! k ! r) = w"
    by (simp_all add: has_shape_def)
  have b: "np_index (length out) 0 = Inr 0"
    by (simp add: np_index_def l0)
  have e1: "setitem_one out label i j =
      ebind (np_index c label) (\<lambda>k.
      ebind (np_index (length (out ! 0 ! k)) (int i)) (\<lambda>r.
      ebind (np_index (length (out ! 0 ! k ! r)) (int j)) (\<lambda>q.
        Inr (out[0 := (out ! 0)[k := (out ! 0 ! k)[r := (out ! 0 ! k ! r)[q := 1]]]]))))"
    by (simp add: setitem_one_def b ebind_Inr l1)
  show ?thesis
  proof (cases "- int c \<le> label \<and> label < int c")
    case False
    then have "np_index c label = Inl IndexError" by (simp add: np_index_label)
    then have "setitem_one out label i j = Inl IndexError" by (simp add: e1 ebind_Inl)
    moreover from False have "\<not> (- int c \<le> label \<and> label < int c \<and> i < h \<and> j < w)" by blast
    ultimately show ?thesis by (simp only: if_False simp_thms)
  next
    case True
    then have k: "channel_of c label < c" by (simp add: channel_of_less)
    from True have n1: "np_index c label = Inr (channel_of c label)" by (simp add: np_index_label)
    have e2: "setitem_one out label i j =
      ebind (np_index h (int i)) (\<lambda>r.
      ebind (np_index (length (out ! 0 ! channel_of c label ! r)) (int j)) (\<lambda>q.
        Inr (out[0 := (out ! 0)[channel_of c label :=
               (out ! 0 ! channel_of c label)[r := (out ! 0 ! channel_of c label ! r)[q := 1]]]])))"
      by (simp add: e1 n1 ebind_Inr l2 [OF k])
    show ?thesis
    proof (cases "i < h")
      case False
      then have "np_index h (int i) = Inl IndexError" by (simp add: np_index_int)
      then have "setitem_one out label i j = Inl IndexError" by (simp add: e2 ebind_Inl)
      moreover from False have "\<not> (- int c \<le> label \<and> label < int c \<and> i < h \<and> j < w)" by blast
      ultimately show ?thesis by (simp only: if_False simp_thms)
    next
      case i: True
      then have n2: "np_index h (int i) = Inr i" by (simp add: np_index_int)
      have e3: "setitem_one out label i j =
        ebind (np_index w (int j)) (\<lambda>q.
          Inr (out[0 := (out ! 0)[channel_of c label :=
               (out ! 0 ! channel_of c label)[i := (out ! 0 ! channel_of c label ! i)[q := 1]]]]))"
        by (simp add: e2 n2 ebind_Inr l3 [OF k i])
      show ?thesis
      proof (cases "j < w")
        case False
        then have "np_index w (int j) = Inl IndexError" by (simp add: np_index_int)
        then have "setitem_one out label i j = Inl IndexError" by (simp add: e3 ebind_Inl)
        moreover from False have "\<not> (- int c \<le> label \<and> label < int c \<and> i < h \<and> j < w)" by blast
        ultimately show ?thesis by (simp only: if_False simp_thms)
      next
        case j: True
        then have "np_index w (int j) = Inr j" by (simp add: np_index_int)
        then have "setitem_one out label i j =
            Inr (out[0 := (out ! 0)[channel_of c label :=
               (out ! 0 ! channel_of c label)[i := (out ! 0 ! channel_of c label ! i)[j := 1]]]])"
          by (simp add: e3 ebind_Inr)
        moreover from True i j have "- int c \<le> label \<and> label < int c \<and> i < h \<and> j < w" by blast
        ultimately show ?thesis by (simp only: if_True simp_thms)
      qed
    qed
  qed
qed

lemma setitem_one_shape:
  assumes "has_shape out (Suc 0) c h w" and "k < c" and "i < h"
  shows "has_shape (out[0 := (out ! 0)[k := (out ! 0 ! k)[i := (out ! 0 ! k ! i)[j := x]]]]) (Suc 0) c h w"
  using assms by (auto simp: has_shape_def nth_list_update)

lemma setitem_one_nth:
  assumes "has_shape out (Suc 0) c h w" and "k < c" and "i < h" and "j < w"
    and "k' < c" and "i' < h" and "j' < w"
  shows "(out[0 := (out ! 0)[k := (out ! 0 ! k)[i := (out ! 0 ! k ! i)[j := x]]]]) ! 0 ! k' ! i' ! j'
       = (if k' = k \<and> i' = i \<and> j' = j then x else out ! 0 ! k' ! i' ! j')"
  using assms by (simp add: has_shape_def nth_list_update)


lemma scatter_columns_ok:
  assumes "has_shape out (Suc 0) c h w" and "i < h" and "i < length source"
    and "\<forall>j \<in> set js. j < w \<and> j < length (source ! i) \<and> valid_label c (source ! i ! j)"
  shows "\<exists>out'. scatter_columns source i js out = Inr out' \<and> has_shape out' (Suc 0) c h w
           \<and> (\<forall>k < c. \<forall>i' < h. \<forall>j' < w.
                out' ! 0 ! k ! i' ! j'
                  = (if i' = i \<and> j' \<in> set js \<and> k = channel_of c (source ! i ! j') then 1
                     else out ! 0 ! k ! i' ! j'))"
  using assms(1,4)
proof (induction js arbitrary: out)
  case Nil
  then show ?case by simp
next
  case (Cons j js)
  let ?label = "source ! i ! j"
  let ?k = "channel_of c ?label"
  let ?out1 = "out[0 := (out ! 0)[?k := (out ! 0 ! ?k)[i := (out ! 0 ! ?k ! i)[j := 1]]]]"
  from Cons.prems(2) have j: "j < w" "j < length (source ! i)" and v: "valid_label c ?label"
    and rest: "\<forall>j \<in> set js. j < w \<and> j < length (source ! i) \<and> valid_label c (source ! i ! j)"
    by simp_all
  from v have k: "?k < c" by (simp add: valid_label_def channel_of_less)
  have get: "grid_getitem source i j = Inr ?label"
    using assms(3) j by (simp add: grid_getitem_cases)
  have set1: "setitem_one out ?label i j = Inr ?out1"
    using v j assms(2) by (simp add: setitem_one_cases [OF Cons.prems(1)] valid_label_def)
  have shape1: "has_shape ?out1 (Suc 0) c h w"
    by (rule setitem_one_shape [OF Cons.prems(1) k assms(2)])
  from Cons.IH [OF shape1 rest] obtain out' where
    run: "scatter_columns source i js ?out1 = Inr out'" and
    shape': "has_shape out' (Suc 0) c h w" and
    vals: "\<forall>k < c. \<forall>i' < h. \<forall>j' < w.
                out' ! 0 ! k ! i' ! j'
                  = (if i' = i \<and> j' \<in> set js \<and> k = channel_of c (source ! i ! j') then 1
                     else ?out1 ! 0 ! k ! i' ! j')"
    by blast
  have "scatter_columns source i (j # js) out = Inr out'"
    by (simp add: get set1 run)
  moreover have "\<forall>k < c. \<forall>i' < h. \<forall>j' < w.
                out' ! 0 ! k ! i' ! j'
                  = (if i' = i \<and> j' \<in> set (j # js) \<and> k = channel_of c (source ! i ! j') then 1
                     else out ! 0 ! k ! i' ! j')"
  proof (intro allI impI)
    fix k' i' j' assume b: "k' < c" "i' < h" "j' < w"
    from vals b have "out' ! 0 ! k' ! i' ! j'
        = (if i' = i \<and> j' \<in> set js \<and> k' = channel_of c (source ! i ! j') then 1
           else ?out1 ! 0 ! k' ! i' ! j')"
      by blast
    also have "?out1 ! 0 ! k' ! i' ! j' = (if k' = ?k \<and> i' = i \<and> j' = j then 1 else out ! 0 ! k' ! i' ! j')"
      by (rule setitem_one_nth [OF Cons.prems(1) k assms(2) j(1) b])
    finally show "out' ! 0 ! k' ! i' ! j'
                  = (if i' = i \<and> j' \<in> set (j # js) \<and> k' = channel_of c (source ! i ! j') then 1
                     else out ! 0 ! k' ! i' ! j')"
      by auto
  qed
  ultimately show ?case using shape' by blast
qed

lemma scatter_rows_ok:
  assumes "has_shape out (Suc 0) c h w" and "n \<le> w"
    and "\<forall>i \<in> set rows. i < h \<and> i < length source
           \<and> (\<forall>j < n. j < length (source ! i) \<and> valid_label c (source ! i ! j))"
  shows "\<exists>out'. scatter_rows source n rows out = Inr out' \<and> has_shape out' (Suc 0) c h w
           \<and> (\<forall>k < c. \<forall>i' < h. \<forall>j' < w.
                out' ! 0 ! k ! i' ! j'
                  = (if i' \<in> set rows \<and> j' < n \<and> k = channel_of c (source ! i' ! j') then 1
                     else out ! 0 ! k ! i' ! j'))"
  using assms(1,3)
proof (induction rows arbitrary: out)
  case Nil
  then show ?case by simp
next
  case (Cons i rows)
  from Cons.prems(2) have i: "i < h" "i < length source"
    and cols: "\<forall>j \<in> set [0..<n]. j < w \<and> j < length (source ! i) \<and> valid_label c (source ! i ! j)"
    and rest: "\<forall>i \<in> set rows. i < h \<and> i < length source
           \<and> (\<forall>j < n. j < length (source ! i) \<and> valid_label c (source ! i ! j))"
    using assms(2) by auto
  from scatter_columns_ok [OF Cons.prems(1) i cols] obtain out1 where
    run1: "scatter_columns source i [0..<n] out = Inr out1" and
    shape1: "has_shape out1 (Suc 0) c h w" and
    vals1: "\<forall>k < c. \<forall>i' < h. \<forall>j' < w.
                out1 ! 0 ! k ! i' ! j'
                  = (if i' = i \<and> j' \<in> set [0..<n] \<and> k = channel_of c (source ! i ! j') then 1
                     else out ! 0 ! k ! i' ! j')"
    by blast
  from Cons.IH [OF shape1 rest] obtain out' where
    run: "scatter_rows source n rows out1 = Inr out'" and
    shape': "has_shape out' (Suc 0) c h w" and
    vals: "\<forall>k < c. \<forall>i' < h. \<forall>j' < w.
                out' ! 0 ! k ! i' ! j'
                  = (if i' \<in> set rows \<and> j' < n \<and> k = channel_of c (source ! i' ! j') then 1
                     else out1 ! 0 ! k ! i' ! j')"
    by blast
  have "scatter_rows source n (i # rows) out = Inr out'"
    by (simp add: run1 run)
  moreover have "\<forall>k < c. \<forall>i' < h. \<forall>j' < w.
                out' ! 0 ! k ! i' ! j'
                  = (if i' \<in> set (i # rows) \<and> j' < n \<and> k = channel_of c (source ! i' ! j') then 1
                     else out ! 0 ! k ! i' ! j')"
  proof (intro allI impI)
    fix k' i' j' assume b: "k' < c" "i' < h" "j' < w"
    from vals b have "out' ! 0 ! k' ! i' ! j'
        = (if i' \<in> set rows \<and> j' < n \<and> k' = channel_of c (source ! i' ! j') then 1
           else out1 ! 0 ! k' ! i' ! j')"
      by blast
    also from vals1 b have "out1 ! 0 ! k' ! i' ! j'
        = (if i' = i \<and> j' \<in> set [0..<n] \<and> k' = channel_of c (source ! i ! j') then 1
           else out ! 0 ! k' ! i' ! j')"
      by blast
    finally show "out' ! 0 ! k' ! i' ! j'
                  = (if i' \<in> set (i # rows) \<and> j' < n \<and> k' = channel_of c (source ! i' ! j') then 1
                     else out ! 0 ! k' ! i' ! j')"
      by auto
  qed
  ultimately show ?case using shape' by blast
qed

lemma np_zeros4_shape: "has_shape (np_zeros4 (Suc 0) c h w) (Suc 0) c h w"
  by (simp add: np_zeros4_def has_shape_def)

lemma np_zeros4_nth:
  "k < c \<Longrightarrow> i < h \<Longrightarrow> j < w \<Longrightarrow> np_zeros4 (Suc 0) c h w ! 0 ! k ! i ! j = 0"
  by (simp add: np_zeros4_def)

lemma rectangular_row:
  assumes "rectangular source" and "i < length source"
  shows "length (source ! i) = snd (grid_shape source)"
  using assms by (simp add: rectangular_def)

lemma label_in_labels:
  "i < length source \<Longrightarrow> j < length (source ! i) \<Longrightarrow> source ! i ! j \<in> labels source"
  unfolding labels_def by (meson UN_I nth_mem)

lemma labels_nth:
  assumes "v \<in> labels source"
  obtains i j where "i < length source" and "j < length (source ! i)" and "v = source ! i ! j"
  using assms unfolding labels_def by (auto simp: in_set_conv_nth)

lemma scatter_unfold:
  "scatter source = scatter_rows source (snd (grid_shape source)) [0..<length source]
                      (np_zeros4 (Suc 0) 151 256 256)"
  by (simp add: scatter_def grid_shape_def Let_def)

lemma scatter_ok:
  assumes "rectangular source" and "length source \<le> 256" and "snd (grid_shape source) \<le> 256"
    and "\<forall>v \<in> labels source. valid_label 151 v"
  shows "\<exists>out. scatter source = Inr out \<and> has_shape out (Suc 0) 151 256 256
           \<and> (\<forall>k < 151. \<forall>i < 256. \<forall>j < 256.
                out ! 0 ! k ! i ! j
                  = (if i < length source \<and> j < snd (grid_shape source)
                        \<and> k = channel_of 151 (source ! i ! j) then 1 else 0))"
proof -
  let ?w = "snd (grid_shape source)"
  let ?z = "np_zeros4 (Suc 0) 151 256 256"
  have rows: "\<forall>i \<in> set [0..<length source]. i < 256 \<and> i < length source
           \<and> (\<forall>j < ?w. j < length (source ! i) \<and> valid_label 151 (source ! i ! j))"
  proof (intro ballI conjI allI impI)
    fix i assume "i \<in> set [0..<length source]"
    then have i: "i < length source" by simp
    with assms(2) show "i < 256" by simp
    from i show "i < length source" .
    fix j assume j: "j < ?w"
    with rectangular_row [OF assms(1) i] show lj: "j < length (source ! i)" by simp
    from label_in_labels [OF i lj] assms(4) show "valid_label 151 (source ! i ! j)" by blast
  qed
  from scatter_rows_ok [OF np_zeros4_shape assms(3) rows] obtain out where
    run: "scatter_rows source ?w [0..<length source] ?z = Inr out" and
    shape: "has_shape out (Suc 0) 151 256 256" and
    vals: "\<forall>k < 151. \<forall>i' < 256. \<forall>j' < 256.
                out ! 0 ! k ! i' ! j'
                  = (if i' \<in> set [0..<length source] \<and> j' < ?w
                        \<and> k = channel_of 151 (source ! i' ! j') then 1
                     else ?z ! 0 ! k ! i' ! j')"
    by blast
  have "\<forall>k < 151. \<forall>i < 256. \<forall>j < 256.
                out ! 0 ! k ! i ! j
                  = (if i < length source \<and> j < ?w \<and> k = channel_of 151 (source ! i ! j) then 1 else 0)"
  proof (intro allI impI)
    fix k i j :: nat assume b: "k < 151" "i < 256" "j < 256"
    from vals b have "out ! 0 ! k ! i ! j
                  = (if i \<in> set [0..<length source] \<and> j < ?w
                        \<and> k = channel_of 151 (source ! i ! j) then 1
                     else ?z ! 0 ! k ! i ! j)"
      by blast
    also have "?z ! 0 ! k ! i ! j = 0" by (rule np_zeros4_nth [OF b])
    finally show "out ! 0 ! k ! i ! j
                  = (if i < length source \<and> j < ?w \<and> k = channel_of 151 (source ! i ! j) then 1 else 0)"
      by simp
  qed
  with run shape show ?thesis unfolding scatter_unfold by blast
qed

lemma grid_256_facts:
  assumes "grid_256 source"
  shows "rectangular source" and "length source = 256" and "snd (grid_shape source) = 256"
proof -
  from assms have len: "length source = 256" and rows: "\<forall>row \<in> set source. length row = 256"
    by (simp_all add: grid_256_def)
  from len obtain r rs where s: "source = r # rs" by (cases source) auto
  with rows have "length r = 256" by simp
  then show w: "snd (grid_shape source) = 256" by (simp add: grid_shape_def s)
  from rows w show "rectangular source" by (simp add: rectangular_def)
  from len show "length source = 256" .
qed

lemma class_sum_one_hot:
  assumes "has_shape out (Suc 0) c h w" and "i < h" and "j < w" and "a < c"
    and "\<forall>k < c. out ! 0 ! k ! i ! j = (if k = a then 1 else 0)"
  shows "class_sum out i j = 1"
proof -
  from assms(1) have len: "length (out ! 0) = c" by (simp add: has_shape_def)
  have "class_sum out i j = (\<Sum>k = 0..<c. out ! 0 ! k ! i ! j)"
    by (simp add: class_sum_def sum_list_sum_nth len)
  also have "\<dots> = (\<Sum>k = 0..<c. if k = a then 1 else 0)"
    using assms(5) by (intro sum.cong) simp_all
  also have "\<dots> = 1"
    using assms(4) by simp
  finally show ?thesis .
qed

lemma resize_by_index_nearest: "nearest_neighbour_256 resize_by_index"
  unfolding nearest_neighbour_256_def
proof (intro allI impI)
  fix source resized assume r: "resize_by_index source = Inr resized"
  obtain h w where hw: "grid_shape source = (h, w)" by (cases "grid_shape source")
  from r hw have pos: "0 < h" "0 < w" and rect: "rectangular source" and
    res: "resized = map (\<lambda>y. map (\<lambda>x. source ! (y * h div 256) ! (x * w div 256)) [0..<256]) [0..<256]"
    by (auto simp: resize_by_index_def split: if_splits)
  from hw have h: "h = length source" and w: "w = snd (grid_shape source)"
    by (simp_all add: grid_shape_def)
  have g: "grid_256 resized"
    by (auto simp: res grid_256_def)
  have "labels resized \<subseteq> labels source"
  proof
    fix v assume "v \<in> labels resized"
    then obtain y x where y: "y < 256" and x: "x < 256"
      and v: "v = source ! (y * h div 256) ! (x * w div 256)"
      by (auto simp: res labels_def)
    from y pos have "y * h < h * 256" by simp
    then have i: "y * h div 256 < length source"
      unfolding h by (rule less_mult_imp_div_less)
    from x pos have "x * w < w * 256" by simp
    then have "x * w div 256 < w" by (rule less_mult_imp_div_less)
    with rectangular_row [OF rect i] w have j: "x * w div 256 < length (source ! (y * h div 256))"
      by simp
    from label_in_labels [OF i j] show "v \<in> labels source" unfolding v .
  qed
  with g show "grid_256 resized \<and> labels resized \<subseteq> labels source" ..
qed

text \<open>
  C1. For every label grid whose values all lie in [0, 151), the mask preprocessing
  (a nearest-neighbour resize to 256 by 256, then the scatter) returns a tensor of
  shape (1, 151, 256, 256) in which, at every spatial position, the sum over the
  class axis is exactly 1 and the single 1 stands at the class that is the resized
  grid's label at that position. The resize is OpenCV's; what is assumed of it is
  that it returns, with a 256 by 256 grid whose labels are labels of the input.
\<close>

theorem preprocess_with_semantics_one_hot:
  assumes "nearest_neighbour_256 cv2_resize_nearest"
    and "cv2_resize_nearest semantic_mask = Inr resized"
    and "\<forall>v \<in> labels semantic_mask. 0 \<le> v \<and> v < 151"
  shows "\<exists>out. preprocess_with_semantics cv2_resize_nearest semantic_mask = Inr out
           \<and> has_shape out 1 151 256 256
           \<and> (\<forall>i < 256. \<forall>j < 256.
                class_sum out i j = 1
                \<and> out ! 0 ! nat (resized ! i ! j) ! i ! j = 1
                \<and> (\<forall>k < 151. out ! 0 ! k ! i ! j = (if int k = resized ! i ! j then 1 else 0)))"
proof -
  from assms(1,2) have g: "grid_256 resized" and sub: "labels resized \<subseteq> labels semantic_mask"
    unfolding nearest_neighbour_256_def by blast+
  note f = grid_256_facts [OF g]
  from sub assms(3) have range: "\<forall>v \<in> labels resized. 0 \<le> v \<and> v < 151" by blast
  then have valid: "\<forall>v \<in> labels resized. valid_label 151 v"
    by (auto simp: valid_label_def)
  from scatter_ok [OF f(1) _ _ valid] f(2,3) obtain out where
    run: "scatter resized = Inr out" and
    shape: "has_shape out (Suc 0) 151 256 256" and
    vals: "\<forall>k < 151. \<forall>i < 256. \<forall>j < 256.
                out ! 0 ! k ! i ! j
                  = (if i < length resized \<and> j < snd (grid_shape resized)
                        \<and> k = channel_of 151 (resized ! i ! j) then 1 else 0)"
    by auto
  have pre: "preprocess_with_semantics cv2_resize_nearest semantic_mask = Inr out"
    by (simp add: preprocess_with_semantics_def assms(2) ebind_Inr run)
  have cells: "\<forall>i < 256. \<forall>j < 256.
                class_sum out i j = 1
                \<and> out ! 0 ! nat (resized ! i ! j) ! i ! j = 1
                \<and> (\<forall>k < 151. out ! 0 ! k ! i ! j = (if int k = resized ! i ! j then 1 else 0))"
  proof (intro allI impI)
    fix i j :: nat assume i: "i < 256" and j: "j < 256"
    let ?v = "resized ! i ! j"
    from i f(2) have il: "i < length resized" by simp
    with rectangular_row [OF f(1)] f(3) j have jl: "j < length (resized ! i)" by simp
    from label_in_labels [OF il jl] range have v: "0 \<le> ?v" "?v < 151" by auto
    then have ch: "channel_of 151 ?v = nat ?v" and a: "nat ?v < 151"
      by (simp_all add: channel_of_nonneg)
    have one: "\<forall>k < 151. out ! 0 ! k ! i ! j = (if k = nat ?v then 1 else 0)"
      using vals i j il f(3) ch by simp
    have eq: "\<And>k. (int k = ?v) = (k = nat ?v)"
      using v by auto
    from class_sum_one_hot [OF shape i j a one] one a
    show "class_sum out i j = 1
                \<and> out ! 0 ! nat ?v ! i ! j = 1
                \<and> (\<forall>k < 151. out ! 0 ! k ! i ! j = (if int k = ?v then 1 else 0))"
      by (simp add: eq)
  qed
  from pre shape cells show ?thesis by auto
qed

lemma labels_2x2: "labels [[1, 2], [3, 4]] = {1, 2, 3, 4}"
  by (auto simp: labels_def)

theorem preprocess_with_semantics_one_hot_witness:
  "nearest_neighbour_256 resize_by_index
   \<and> resize_by_index [[1, 2], [3, 4]]
       = Inr (map (\<lambda>y. map (\<lambda>x. [[1, 2], [3, 4]] ! (y * 2 div 256) ! (x * 2 div 256)) [0..<256]) [0..<256])
   \<and> labels [[1, 2], [3, 4]] = {1, 2, 3, 4}
   \<and> (\<exists>out. preprocess_with_semantics resize_by_index [[1, 2], [3, 4]] = Inr out
           \<and> has_shape out 1 151 256 256
           \<and> class_sum out 0 255 = 1
           \<and> out ! 0 ! 2 ! 0 ! 255 = 1)"
proof -
  let ?resized = "map (\<lambda>y. map (\<lambda>x. [[1, 2], [3, 4]] ! (y * 2 div 256) ! (x * 2 div 256)) [0..<256]) [0..<256]"
  have gs: "grid_shape [[1, 2], [3, 4]] = (2, 2)"
    by (simp add: grid_shape_def)
  have rect: "rectangular [[1, 2], [3, 4]]"
    by (simp add: rectangular_def gs)
  have r: "resize_by_index [[1, 2], [3, 4]] = Inr ?resized"
    unfolding resize_by_index_def gs using rect by simp
  have l: "\<forall>v \<in> labels [[1, 2], [3, 4]]. 0 \<le> v \<and> v < 151"
    by (simp add: labels_2x2)
  from preprocess_with_semantics_one_hot [OF resize_by_index_nearest r l] obtain out where
    run: "preprocess_with_semantics resize_by_index [[1, 2], [3, 4]] = Inr out" and
    shape: "has_shape out 1 151 256 256" and
    cells: "\<forall>i < 256. \<forall>j < 256.
                class_sum out i j = 1
                \<and> out ! 0 ! nat (?resized ! i ! j) ! i ! j = 1
                \<and> (\<forall>k < 151. out ! 0 ! k ! i ! j = (if int k = ?resized ! i ! j then 1 else 0))"
    by blast
  have at: "?resized ! 0 ! 255 = 2"
    by simp
  from cells have "class_sum out 0 255 = 1 \<and> out ! 0 ! nat (?resized ! 0 ! 255) ! 0 ! 255 = 1"
    by simp
  then have "class_sum out 0 255 = 1 \<and> out ! 0 ! 2 ! 0 ! 255 = 1"
    unfolding at by simp
  with run shape have "\<exists>out. preprocess_with_semantics resize_by_index [[1, 2], [3, 4]] = Inr out
           \<and> has_shape out 1 151 256 256
           \<and> class_sum out 0 255 = 1
           \<and> out ! 0 ! 2 ! 0 ! 255 = 1"
    by blast
  with resize_by_index_nearest r labels_2x2 show ?thesis by (intro conjI)
qed

lemma setitem_one_error_kind: "setitem_one out label i j = Inl e \<Longrightarrow> e = IndexError"
  by (auto simp: setitem_one_def ebind_def np_index_def split: sum.splits if_splits)

lemma grid_getitem_error_kind: "grid_getitem source i j = Inl e \<Longrightarrow> e = IndexError"
  by (auto simp: grid_getitem_cases split: if_splits)

lemma scatter_columns_error_kind:
  "scatter_columns source i js out = Inl e \<Longrightarrow> e = IndexError"
proof (induction js arbitrary: out)
  case Nil
  then show ?case by simp
next
  case (Cons j js)
  then show ?case
    by (auto split: sum.splits dest: grid_getitem_error_kind setitem_one_error_kind)
qed

lemma scatter_rows_error_kind:
  "scatter_rows source n rows out = Inl e \<Longrightarrow> e = IndexError"
proof (induction rows arbitrary: out)
  case Nil
  then show ?case by simp
next
  case (Cons i rows)
  then show ?case
    by (auto split: sum.splits dest: scatter_columns_error_kind)
qed

lemma scatter_columns_Inr:
  assumes "has_shape out (Suc 0) c h w" and "scatter_columns source i js out = Inr out'"
  shows "has_shape out' (Suc 0) c h w
       \<and> (\<forall>j \<in> set js. i < length source \<and> j < length (source ! i) \<and> valid_label c (source ! i ! j))"
  using assms
proof (induction js arbitrary: out)
  case Nil
  then show ?case by simp
next
  case (Cons j js)
  from Cons.prems(2) obtain label out1 where
    get: "grid_getitem source i j = Inr label" and
    set1: "setitem_one out label i j = Inr out1" and
    rest: "scatter_columns source i js out1 = Inr out'"
    by (auto split: sum.splits)
  from get have ij: "i < length source" "j < length (source ! i)" and label: "label = source ! i ! j"
    by (auto simp: grid_getitem_cases split: if_splits)
  from set1 have v: "- int c \<le> label \<and> label < int c" and i: "i < h" and
    out1: "out1 = out[0 := (out ! 0)[channel_of c label :=
                  (out ! 0 ! channel_of c label)[i := (out ! 0 ! channel_of c label ! i)[j := 1]]]]"
    unfolding setitem_one_cases [OF Cons.prems(1)] by (auto split: if_splits)
  from v have k: "channel_of c label < c" by (simp add: channel_of_less)
  have "has_shape out1 (Suc 0) c h w"
    unfolding out1 by (rule setitem_one_shape [OF Cons.prems(1) k i])
  from Cons.IH [OF this rest] ij v label show ?case
    by (simp add: valid_label_def)
qed

lemma scatter_rows_Inr:
  assumes "has_shape out (Suc 0) c h w" and "scatter_rows source n rows out = Inr out'"
  shows "has_shape out' (Suc 0) c h w
       \<and> (\<forall>i \<in> set rows. \<forall>j < n. i < length source \<and> j < length (source ! i)
             \<and> valid_label c (source ! i ! j))"
  using assms
proof (induction rows arbitrary: out)
  case Nil
  then show ?case by simp
next
  case (Cons i rows)
  from Cons.prems(2) obtain out1 where
    cols: "scatter_columns source i [0..<n] out = Inr out1" and
    rest: "scatter_rows source n rows out1 = Inr out'"
    by (auto split: sum.splits)
  from scatter_columns_Inr [OF Cons.prems(1) cols] have
    shape1: "has_shape out1 (Suc 0) c h w" and
    row: "\<forall>j < n. i < length source \<and> j < length (source ! i) \<and> valid_label c (source ! i ! j)"
    by simp_all
  from Cons.IH [OF shape1 rest] row show ?case by simp
qed

lemma scatter_Inr_valid:
  assumes "rectangular source" and "scatter source = Inr out"
  shows "\<forall>v \<in> labels source. valid_label 151 v"
proof
  fix v assume "v \<in> labels source"
  then obtain i j where i: "i < length source" and j: "j < length (source ! i)"
    and v: "v = source ! i ! j"
    by (rule labels_nth)
  from j rectangular_row [OF assms(1) i] have jw: "j < snd (grid_shape source)" by simp
  from scatter_rows_Inr [OF np_zeros4_shape assms(2) [unfolded scatter_unfold]] i jw
  show "valid_label 151 v" unfolding v by simp
qed

lemma scatter_error_kind: "scatter source = Inl e \<Longrightarrow> e = IndexError"
  unfolding scatter_unfold by (rule scatter_rows_error_kind)

lemma minus_one_grid_256: "grid_256 minus_one_grid"
  by (auto simp: grid_256_def minus_one_grid_def)

lemma minus_one_grid_nth: "i < 256 \<Longrightarrow> j < 256 \<Longrightarrow> minus_one_grid ! i ! j = - 1"
  by (simp add: minus_one_grid_def)

lemma minus_one_grid_labels: "labels minus_one_grid = {- 1}"
proof
  show "labels minus_one_grid \<subseteq> {- 1}"
    by (auto simp: labels_def minus_one_grid_def)
  have "minus_one_grid ! 0 ! 0 \<in> labels minus_one_grid"
    by (rule label_in_labels) (simp_all add: minus_one_grid_def)
  then show "{- 1} \<subseteq> labels minus_one_grid"
    by (simp add: minus_one_grid_nth)
qed

lemma scatter_wraps:
  assumes "grid_256 source" and "\<forall>v \<in> labels source. - 151 \<le> v \<and> v < 151"
  shows "\<exists>out. scatter source = Inr out
           \<and> (\<forall>i < 256. \<forall>j < 256. source ! i ! j < 0 \<longrightarrow>
                 out ! 0 ! nat (source ! i ! j + 151) ! i ! j = 1)"
proof -
  note f = grid_256_facts [OF assms(1)]
  from assms(2) have valid: "\<forall>v \<in> labels source. valid_label 151 v"
    by (simp add: valid_label_def)
  from scatter_ok [OF f(1) _ _ valid] f(2,3) obtain out where
    run: "scatter source = Inr out" and
    vals: "\<forall>k < 151. \<forall>i < 256. \<forall>j < 256.
                out ! 0 ! k ! i ! j
                  = (if i < length source \<and> j < snd (grid_shape source)
                        \<and> k = channel_of 151 (source ! i ! j) then 1 else 0)"
    by auto
  have "\<forall>i < 256. \<forall>j < 256. source ! i ! j < 0 \<longrightarrow>
                 out ! 0 ! nat (source ! i ! j + 151) ! i ! j = 1"
  proof (intro allI impI)
    fix i j :: nat assume i: "i < 256" and j: "j < 256" and neg: "source ! i ! j < 0"
    let ?v = "source ! i ! j"
    from i f(2) have il: "i < length source" by simp
    with rectangular_row [OF f(1)] f(3) j have jl: "j < length (source ! i)" by simp
    from label_in_labels [OF il jl] assms(2) have v: "- 151 \<le> ?v" "?v < 151" by auto
    with neg have ch: "channel_of 151 ?v = nat (?v + 151)" and "nat (?v + 151) < 151"
      by (simp_all add: channel_of_def)
    with vals i j il f(3) show "out ! 0 ! nat (?v + 151) ! i ! j = 1" by simp
  qed
  with run show ?thesis by blast
qed

text \<open>
  A label outside [0, 151) that raises nothing: on the 256 by 256 grid of labels
  \<open>-1\<close> the scatter returns a tensor, with the ones in class channel 150.
\<close>

theorem scatter_negative_label_counterexample:
  "- 1 \<in> labels minus_one_grid \<and> \<not> (0 \<le> (- 1 :: int))
   \<and> \<not> isl (scatter minus_one_grid)
   \<and> projr (scatter minus_one_grid) ! 0 ! 150 ! 0 ! 0 = 1"
proof -
  have l: "\<forall>v \<in> labels minus_one_grid. - 151 \<le> v \<and> v < 151"
    by (simp add: minus_one_grid_labels)
  from scatter_wraps [OF minus_one_grid_256 l] obtain out where
    run: "scatter minus_one_grid = Inr out" and
    wrap: "\<forall>i < 256. \<forall>j < 256. minus_one_grid ! i ! j < 0 \<longrightarrow>
                 out ! 0 ! nat (minus_one_grid ! i ! j + 151) ! i ! j = 1"
    by blast
  have "minus_one_grid ! 0 ! 0 = - 1" by (simp add: minus_one_grid_nth)
  with wrap [rule_format, of 0 0] have "out ! 0 ! 150 ! 0 ! 0 = 1" by simp
  with run show ?thesis by (simp add: minus_one_grid_labels)
qed

text \<open>
  C5 (as amended). For every label grid containing a value that is at least 151 or
  less than -151, the scatter step raises \<open>IndexError\<close>. A label in [-151, 0) raises
  nothing: numpy counts a negative index from the end of the class axis, and the
  scatter of a 256 by 256 grid with labels in [-151, 151) returns a tensor with a 1
  at class \<open>label + 151\<close> wherever the label is negative.
\<close>

theorem scatter_out_of_range_labels:
  "(rectangular source \<and> (\<exists>v \<in> labels source. 151 \<le> v \<or> v < - 151) \<longrightarrow>
      scatter source = Inl IndexError)
   \<and> (grid_256 source \<and> (\<forall>v \<in> labels source. - 151 \<le> v \<and> v < 151) \<longrightarrow>
      (\<exists>out. scatter source = Inr out
         \<and> (\<forall>i < 256. \<forall>j < 256. source ! i ! j < 0 \<longrightarrow>
               out ! 0 ! nat (source ! i ! j + 151) ! i ! j = 1)))"
proof (intro conjI impI)
  assume h: "rectangular source \<and> (\<exists>v \<in> labels source. 151 \<le> v \<or> v < - 151)"
  show "scatter source = Inl IndexError"
  proof (cases "scatter source")
    case (Inl e)
    with scatter_error_kind [OF Inl] show ?thesis by simp
  next
    case (Inr out)
    with h scatter_Inr_valid [of source out] have "\<forall>v \<in> labels source. valid_label 151 v"
      by blast
    with h show ?thesis by (auto simp: valid_label_def)
  qed
next
  assume "grid_256 source \<and> (\<forall>v \<in> labels source. - 151 \<le> v \<and> v < 151)"
  then show "\<exists>out. scatter source = Inr out
         \<and> (\<forall>i < 256. \<forall>j < 256. source ! i ! j < 0 \<longrightarrow>
               out ! 0 ! nat (source ! i ! j + 151) ! i ! j = 1)"
    by (simp add: scatter_wraps)
qed

theorem scatter_out_of_range_labels_witness:
  "rectangular [[0, 151]] \<and> 151 \<in> labels [[0, 151]]
   \<and> scatter [[0, 151]] = Inl IndexError
   \<and> grid_256 minus_one_grid \<and> labels minus_one_grid = {- 1}
   \<and> (\<exists>out. scatter minus_one_grid = Inr out \<and> out ! 0 ! 150 ! 255 ! 255 = 1)"
proof -
  have r: "rectangular [[0, 151]]"
    by (simp add: rectangular_def grid_shape_def)
  have l: "151 \<in> labels [[0, 151]]"
    by (simp add: labels_def)
  from r l scatter_out_of_range_labels [of "[[0, 151]]"]
  have bad: "scatter [[0, 151]] = Inl IndexError"
    by blast
  have l1: "\<forall>v \<in> labels minus_one_grid. - 151 \<le> v \<and> v < 151"
    by (simp add: minus_one_grid_labels)
  from minus_one_grid_256 l1 scatter_out_of_range_labels [of minus_one_grid]
  obtain out where run: "scatter minus_one_grid = Inr out" and
    wrap: "\<forall>i < 256. \<forall>j < 256. minus_one_grid ! i ! j < 0 \<longrightarrow>
               out ! 0 ! nat (minus_one_grid ! i ! j + 151) ! i ! j = 1"
    by blast
  have "minus_one_grid ! 255 ! 255 = - 1" by (simp add: minus_one_grid_nth)
  with wrap [rule_format, of 255 255] have "out ! 0 ! 150 ! 255 ! 255 = 1" by simp
  with run have "\<exists>out. scatter minus_one_grid = Inr out \<and> out ! 0 ! 150 ! 255 ! 255 = 1"
    by blast
  with r l bad minus_one_grid_256 minus_one_grid_labels show ?thesis by (intro conjI)
qed

end
